theory Spec2Isabelle
  imports Main
begin

section \<open>Dates\<close>

text \<open>
  A Python \<open>datetime\<close> is modelled as the number of seconds since 0001-01-01 00:00:00
  (proleptic Gregorian calendar), an \<open>int\<close>; the order of \<open>datetime\<close> values is the order of
  \<open>int\<close>. Microseconds and the bounds of Python's year range (1..9999) are left out.
  Day 0 of this scale (ordinal 1 in Python) is a Monday, so the weekday of an instant, in
  Python's numbering (Monday = 0 ... Sunday = 6), is its day number modulo 7.
\<close>

type_synonym datetime = int

definition day_seconds :: int where
  "day_seconds = 86400"

definition is_leap :: "int \<Rightarrow> bool" where
  "is_leap y = (y mod 4 = 0 \<and> (y mod 100 \<noteq> 0 \<or> y mod 400 = 0))"

definition days_before_year :: "int \<Rightarrow> int" where
  "days_before_year y = (y - 1) * 365 + (y - 1) div 4 - (y - 1) div 100 + (y - 1) div 400"

definition days_before_month :: "int \<Rightarrow> int \<Rightarrow> int" where
  "days_before_month y m =
     [0, 31, 59, 90, 120, 151, 181, 212, 243, 273, 304, 334] ! nat (m - 1)
     + (if 2 < m \<and> is_leap y then 1 else 0)"

text \<open>\<open>mk_datetime y m d\<close> is Python's \<open>datetime(y, m, d)\<close> (midnight), for \<open>1 \<le> m \<le> 12\<close>.\<close>

definition mk_datetime :: "int \<Rightarrow> int \<Rightarrow> int \<Rightarrow> datetime" where
  "mk_datetime y m d = (days_before_year y + days_before_month y m + d - 1) * day_seconds"

definition weekday :: "datetime \<Rightarrow> int" where
  "weekday t = (t div day_seconds) mod 7"

text \<open>
  Modelled from the spec: \<open>datetools.normalize_date\<close> is not part of the source file; the
  spec says the cursor is "normalized to midnight", so the time of day is dropped.
\<close>

definition normalize_date :: "datetime \<Rightarrow> datetime" where
  "normalize_date t = t - t mod day_seconds"

section \<open>Offsets and the datetools module\<close>

text \<open>
  The offset classes live in \<open>pandas.core.datetools\<close>, which is not part of the source
  file. An offset object is data: its class together with its keyword arguments
  (\<open>off_class\<close>) and its attribute \<open>n\<close> (\<open>off_n\<close>), the number of unit steps of one step of
  the offset. Offsets are equal, and the same dictionary key, when these are equal.
\<close>

record DateOffset =
  off_class :: string
  off_n :: int

text \<open>
  What the offsets do is decided by \<open>datetools\<close>, so the module is a parameter of the
  model: a record of the operations and module-level names the source uses.
  \<^item> \<open>add_offset env o d\<close> is \<open>d + o\<close>;
  \<^item> \<open>onOffset env o d\<close>, \<open>rollforward env o d\<close>, \<open>rollback env o d\<close> and \<open>isAnchored env o\<close>
    are the methods of these names, called on \<open>o\<close>;
  \<^item> \<open>isTick env o\<close> is \<open>isinstance(o, datetools.Tick)\<close> and \<open>normalizeFirst env o\<close> is
    \<open>o._normalizeFirst\<close>;
  \<^item> \<open>getOffset\<close> maps a rule name to an offset (or raises), \<open>offsetNames\<close> is the dictionary
    \<open>_offsetNames\<close>, and \<open>bday\<close> is the default offset of \<open>DateRange\<close>.
  \<open>datetools.to_datetime\<close> is the identity on \<open>None\<close> and on datetime values; boundaries
  enter the model parsed, as \<open>datetime option\<close>.
\<close>

datatype error =
    InsufficientParametersError
  | MissingOffsetError
  | MissingBoundaryError
  | MissingPeriodCountError
  | DateNotFoundError
  | BadRuleError
  | IndexError
  | NoOffsetTypeError

text \<open>
  Exceptions are values of \<open>error\<close>. The source raises plain \<open>Exception\<close>s with a message,
  and fails with Python's own exceptions where it computes with a missing value; the
  constructors carry the names the specification gives these failures:
  \<^item> \<open>InsufficientParametersError\<close>: the \<open>TypeError\<close> of \<open>None - 1\<close>, of comparing a datetime
    with \<open>None\<close>, and the failure of adding an offset to \<open>None\<close>;
  \<^item> \<open>MissingOffsetError\<close>: \<open>Exception('Must provide a DateOffset!')\<close>;
  \<^item> \<open>MissingBoundaryError\<close>: \<open>Exception('Must provide start or end date!')\<close>;
  \<^item> \<open>MissingPeriodCountError\<close>: \<open>Exception('Must provide number of periods!')\<close>;
  \<^item> \<open>DateNotFoundError\<close>: the \<open>KeyError\<close> of \<open>indexMap[d]\<close>;
  \<^item> \<open>BadRuleError\<close>: \<open>datetools.getOffset\<close> failing on a rule name;
  \<^item> \<open>IndexError\<close>: indexing an empty range; \<open>NoOffsetTypeError\<close>: the \<open>TypeError\<close> of adding
    the offset \<open>None\<close> to a datetime.
\<close>

record datetools =
  add_offset :: "DateOffset \<Rightarrow> datetime \<Rightarrow> datetime"
  onOffset :: "DateOffset \<Rightarrow> datetime \<Rightarrow> bool"
  rollforward :: "DateOffset \<Rightarrow> datetime \<Rightarrow> datetime"
  rollback :: "DateOffset \<Rightarrow> datetime \<Rightarrow> datetime"
  isAnchored :: "DateOffset \<Rightarrow> bool"
  isTick :: "DateOffset \<Rightarrow> bool"
  normalizeFirst :: "DateOffset \<Rightarrow> bool"
  getOffset :: "string \<Rightarrow> error + DateOffset"
  offsetNames :: "DateOffset \<Rightarrow> string option"
  bday :: DateOffset

text \<open>
  Offset arithmetic. \<open>unit_offset o\<close> is \<open>o.__class__(n=1, **o.kwds)\<close> and \<open>times_offset k o\<close>
  is \<open>k * o\<close>, the offset of the same class with \<open>n\<close> multiplied. Subtracting an offset adds
  its negation, the offset of the same class with \<open>-n\<close>.
\<close>

definition unit_offset :: "DateOffset \<Rightarrow> DateOffset" where
  "unit_offset off = off\<lparr>off_n := 1\<rparr>"

definition times_offset :: "int \<Rightarrow> DateOffset \<Rightarrow> DateOffset" where
  "times_offset k off = off\<lparr>off_n := k * off_n off\<rparr>"

definition neg_offset :: "DateOffset \<Rightarrow> DateOffset" where
  "neg_offset off = off\<lparr>off_n := - off_n off\<rparr>"

definition plus_offset :: "datetools \<Rightarrow> datetime \<Rightarrow> DateOffset \<Rightarrow> datetime" where
  "plus_offset env d off = add_offset env off d"

definition minus_offset :: "datetools \<Rightarrow> datetime \<Rightarrow> DateOffset \<Rightarrow> datetime" where
  "minus_offset env d off = add_offset env (neg_offset off) d"

section \<open>XDateRange\<close>

record XDateRange =
  x_offset :: DateOffset
  x_timeRule :: "string option"
  fromDate :: datetime
  toDate :: datetime
  nPeriods :: "int option"

text \<open>Lines 56-57: an off-grid \<open>fromDate\<close> moves one unit step forward.\<close>

definition snap_fromDate :: "datetools \<Rightarrow> DateOffset \<Rightarrow> datetime option \<Rightarrow> datetime option" where
  "snap_fromDate env off fd =
     (case fd of
        None \<Rightarrow> None
      | Some d \<Rightarrow>
          if \<not> onOffset env off d then Some (plus_offset env d (unit_offset off)) else Some d)"

text \<open>
  Lines 58-62: an off-grid \<open>toDate\<close> moves one unit step backward; only then, with no period
  count, a \<open>toDate\<close> before \<open>fromDate\<close> is cleared and the period count becomes 0. The
  comparison with a missing \<open>fromDate\<close> raises.
\<close>

definition snap_toDate ::
  "datetools \<Rightarrow> DateOffset \<Rightarrow> datetime option \<Rightarrow> datetime option \<Rightarrow> int option
     \<Rightarrow> error + (datetime option \<times> int option)" where
  "snap_toDate env off fd td np =
     (case td of
        None \<Rightarrow> Inr (None, np)
      | Some e \<Rightarrow>
          if \<not> onOffset env off e then
            (let e' = minus_offset env e (unit_offset off) in
             if np = None then
               (case fd of
                  None \<Rightarrow> Inl InsufficientParametersError
                | Some f \<Rightarrow> if e' < f then Inr (None, Some 0) else Inr (Some e', np))
             else Inr (Some e', np))
          else Inr (Some e, np))"

text \<open>Lines 64-65: \<open>toDate = fromDate + (nPeriods - 1) * offset\<close> when \<open>toDate\<close> is missing.\<close>

definition derive_toDate ::
  "datetools \<Rightarrow> DateOffset \<Rightarrow> datetime option \<Rightarrow> datetime option \<Rightarrow> int option
     \<Rightarrow> error + datetime" where
  "derive_toDate env off fd td np =
     (case td of
        Some e \<Rightarrow> Inr e
      | None \<Rightarrow>
          (case np of
             None \<Rightarrow> Inl InsufficientParametersError
           | Some p \<Rightarrow>
               (case fd of
                  None \<Rightarrow> Inl InsufficientParametersError
                | Some f \<Rightarrow> Inr (plus_offset env f (times_offset (p - 1) off)))))"

text \<open>Lines 67-68: \<open>fromDate = toDate - (nPeriods - 1) * offset\<close> when \<open>fromDate\<close> is missing.\<close>

definition derive_fromDate ::
  "datetools \<Rightarrow> DateOffset \<Rightarrow> datetime option \<Rightarrow> datetime \<Rightarrow> int option
     \<Rightarrow> error + datetime" where
  "derive_fromDate env off fd e np =
     (case fd of
        Some f \<Rightarrow> Inr f
      | None \<Rightarrow>
          (case np of
             None \<Rightarrow> Inl InsufficientParametersError
           | Some p \<Rightarrow> Inr (minus_offset env e (times_offset (p - 1) off))))"

text \<open>Lines 46-51: a rule name overrides the offset; without one, the offset's name is looked up.\<close>

definition resolve_offset :: "datetools \<Rightarrow> DateOffset \<Rightarrow> string option \<Rightarrow> error + DateOffset" where
  "resolve_offset env off tr = (case tr of None \<Rightarrow> Inr off | Some r \<Rightarrow> getOffset env r)"

definition resolve_timeRule :: "datetools \<Rightarrow> DateOffset \<Rightarrow> string option \<Rightarrow> string option" where
  "resolve_timeRule env off tr = (case tr of None \<Rightarrow> offsetNames env off | Some r \<Rightarrow> Some r)"

text \<open>\<open>XDateRange.__init__\<close>: the constructed generator, or the exception raised.\<close>

definition XDateRange_init ::
  "datetools \<Rightarrow> datetime option \<Rightarrow> datetime option \<Rightarrow> int option \<Rightarrow> DateOffset
     \<Rightarrow> string option \<Rightarrow> error + XDateRange" where
  "XDateRange_init env fd td np offs tr =
     (case resolve_offset env offs tr of
        Inl err \<Rightarrow> Inl err
      | Inr off \<Rightarrow>
          (let fd1 = snap_fromDate env off fd in
           case snap_toDate env off fd1 td np of
             Inl err \<Rightarrow> Inl err
           | Inr (td1, np1) \<Rightarrow>
               (case derive_toDate env off fd1 td1 np1 of
                  Inl err \<Rightarrow> Inl err
                | Inr e \<Rightarrow>
                    (case derive_fromDate env off fd1 e np1 of
                       Inl err \<Rightarrow> Inl err
                     | Inr f \<Rightarrow>
                         Inr \<lparr>x_offset = off, x_timeRule = resolve_timeRule env off tr,
                              fromDate = f, toDate = e, nPeriods = np1\<rparr>))))"

text \<open>
  \<open>XDateRange.__iter__\<close>. The generator's state is its cursor: \<open>start_cursor\<close> is the cursor
  before the first test of the loop, \<open>XDateRange_next\<close> is one turn of the loop (the value
  yielded and the next cursor, or \<open>None\<close> when the loop ends).
\<close>

definition start_cursor :: "datetools \<Rightarrow> XDateRange \<Rightarrow> datetime" where
  "start_cursor env x =
     (if normalizeFirst env (x_offset x) then normalize_date (fromDate x) else fromDate x)"

definition XDateRange_next ::
  "datetools \<Rightarrow> XDateRange \<Rightarrow> datetime \<Rightarrow> (datetime \<times> datetime) option" where
  "XDateRange_next env x cur =
     (if cur \<le> toDate x then Some (cur, plus_offset env cur (x_offset x)) else None)"

text \<open>
  \<open>list(xdr)\<close>: the loop run to exhaustion from a cursor. The loop need not end (an offset
  whose step does not advance the cursor), so the result is an option: \<open>None\<close> when the
  loop runs forever.
\<close>

partial_function (option) exhaust ::
  "datetools \<Rightarrow> XDateRange \<Rightarrow> datetime \<Rightarrow> datetime list option" where
  "exhaust env x cur =
     (case XDateRange_next env x cur of
        None \<Rightarrow> Some []
      | Some (d, cur') \<Rightarrow> Option.bind (exhaust env x cur') (\<lambda>rest. Some (d # rest)))"

declare exhaust.simps [code]

definition XDateRange_list :: "datetools \<Rightarrow> XDateRange \<Rightarrow> datetime list option" where
  "XDateRange_list env x = exhaust env x (start_cursor env x)"

section \<open>DateRange\<close>

text \<open>
  A \<open>DateRange\<close> is an array of datetimes with the attributes \<open>offset\<close> and \<open>_parent\<close>, both
  \<open>None\<close> on a fresh view of a plain array (\<open>__array_finalize__\<close>).
\<close>

datatype DateRange =
  DateRange (vals: "datetime list") (offset: "DateOffset option") (parent: "DateRange option")

text \<open>The module constants \<open>CACHE_START\<close> and \<open>CACHE_END\<close>.\<close>

definition CACHE_START :: datetime where
  "CACHE_START = mk_datetime 1950 1 1"

definition CACHE_END :: datetime where
  "CACHE_END = mk_datetime 2030 1 1"

text \<open>
  Python's slice \<open>xs[i:j]\<close> with unit step (\<open>None\<close> for an omitted bound): a negative bound
  counts from the end, and bounds are clamped to \<open>0 .. len(xs)\<close>.
\<close>

definition slice_index :: "nat \<Rightarrow> int \<Rightarrow> nat" where
  "slice_index len i = (if i < 0 then nat (i + int len) else min (nat i) len)"

definition py_slice :: "'a list \<Rightarrow> int option \<Rightarrow> int option \<Rightarrow> 'a list" where
  "py_slice xs i j =
     (let a = (case i of None \<Rightarrow> 0 | Some i' \<Rightarrow> slice_index (length xs) i');
          b = (case j of None \<Rightarrow> length xs | Some j' \<Rightarrow> slice_index (length xs) j')
      in take (b - a) (drop a xs))"

text \<open>
  \<open>__getitem__\<close> with a unit-step slice \<open>slice(i, j)\<close>, as \<open>__getslice__\<close> passes it on: a
  new range on the sliced array, a fresh view (no parent) with the offset of \<open>self\<close>; and
  with an integer key: the element, or \<open>IndexError\<close>.
\<close>

definition getitem_slice :: "DateRange \<Rightarrow> int option \<Rightarrow> int option \<Rightarrow> DateRange" where
  "getitem_slice self i j = DateRange (py_slice (vals self) i j) (offset self) None"

definition getitem_int :: "DateRange \<Rightarrow> int \<Rightarrow> error + datetime" where
  "getitem_int self i =
     (let len = int (length (vals self)); j = (if i < 0 then i + len else i)
      in if 0 \<le> j \<and> j < len then Inr (vals self ! nat j) else Inl IndexError)"

text \<open>
  Modelled from the spec: \<open>Index.indexMap\<close> belongs to \<open>pandas.core.index\<close>, which is not
  part of the source file; the spec has it locate a date's integer position in the
  sequence. It is the dictionary from each element to its position (the last one, should
  an element repeat); a date that is not an element has no entry.
\<close>

definition indexMap :: "datetime list \<Rightarrow> datetime \<Rightarrow> nat option" where
  "indexMap xs = map_of (rev (zip xs [0..<length xs]))"

definition locate :: "DateRange \<Rightarrow> datetime \<Rightarrow> error + int" where
  "locate r d =
     (case indexMap (vals r) d of None \<Rightarrow> Inl DateNotFoundError | Some i \<Rightarrow> Inr (int i))"

text \<open>\<open>DateRange.fromIndex\<close> on a plain array (the \<open>index\<close> keyword of \<open>__new__\<close>).\<close>

definition fromIndex :: "datetime list \<Rightarrow> DateRange" where
  "fromIndex arr = DateRange arr None None"

text \<open>The class attribute \<open>DateRange._cache\<close>, a dictionary keyed by offset.\<close>

type_synonym cache = "DateOffset \<Rightarrow> DateRange option"

text \<open>
  Lines 180-189 of \<open>getCachedRange\<close>: the canonical range of an offset is taken from the
  cache, or generated over the cache window, materialized and stored. The result is \<open>None\<close>
  when the generation never ends.
\<close>

definition build_canonical :: "datetools \<Rightarrow> DateOffset \<Rightarrow> (error + DateRange) option" where
  "build_canonical env off =
     (case XDateRange_init env (Some CACHE_START) (Some CACHE_END) None off None of
        Inl err \<Rightarrow> Some (Inl err)
      | Inr xdr \<Rightarrow>
          (case XDateRange_list env xdr of
             None \<Rightarrow> None
           | Some arr \<Rightarrow> Some (Inr (DateRange (vals (fromIndex arr)) (Some off) None))))"

definition lookup_or_build ::
  "datetools \<Rightarrow> cache \<Rightarrow> DateOffset \<Rightarrow> ((error + DateRange) \<times> cache) option" where
  "lookup_or_build env c off =
     (case c off of
        Some cachedRange \<Rightarrow> Some (Inr cachedRange, c)
      | None \<Rightarrow>
          (case build_canonical env off of
             None \<Rightarrow> None
           | Some (Inl err) \<Rightarrow> Some (Inl err, c)
           | Some (Inr cachedRange) \<Rightarrow> Some (Inr cachedRange, c(off \<mapsto> cachedRange))))"

text \<open>Lines 191-217 of \<open>getCachedRange\<close>: the bounds \<open>(startLoc, endLoc)\<close> of the slice.\<close>

definition slice_bounds ::
  "datetools \<Rightarrow> DateOffset \<Rightarrow> DateRange \<Rightarrow> datetime option \<Rightarrow> datetime option
     \<Rightarrow> int option \<Rightarrow> error + (int \<times> int)" where
  "slice_bounds env off cachedRange start en periods =
     (case start of
        None \<Rightarrow>
          (case en of
             None \<Rightarrow> Inl MissingBoundaryError
           | Some e \<Rightarrow>
               (case periods of
                  None \<Rightarrow> Inl MissingPeriodCountError
                | Some p \<Rightarrow>
                    (case locate cachedRange (rollback env off e) of
                       Inl err \<Rightarrow> Inl err
                     | Inr i \<Rightarrow> Inr (i + 1 - p, i + 1))))
      | Some s \<Rightarrow>
          (case en of
             None \<Rightarrow>
               (case locate cachedRange (rollforward env off s) of
                  Inl err \<Rightarrow> Inl err
                | Inr i \<Rightarrow>
                    (case periods of
                       None \<Rightarrow> Inl MissingPeriodCountError
                     | Some p \<Rightarrow> Inr (i, i + p)))
           | Some e \<Rightarrow>
               (case locate cachedRange (rollforward env off s) of
                  Inl err \<Rightarrow> Inl err
                | Inr i \<Rightarrow>
                    (case locate cachedRange (rollback env off e) of
                       Inl err \<Rightarrow> Inl err
                     | Inr j \<Rightarrow> Inr (i, j + 1)))))"

text \<open>
  \<open>DateRange.getCachedRange\<close>, with the cache passed in and returned: the cache keeps a
  freshly built canonical range also when the lookup then raises.
\<close>

definition getCachedRange ::
  "datetools \<Rightarrow> cache \<Rightarrow> datetime option \<Rightarrow> datetime option \<Rightarrow> int option
     \<Rightarrow> DateOffset option \<Rightarrow> string option \<Rightarrow> ((error + DateRange) \<times> cache) option" where
  "getCachedRange env c start en periods offs tr =
     (case (case tr of None \<Rightarrow> Inr offs | Some r \<Rightarrow> map_sum id Some (getOffset env r)) of
        Inl err \<Rightarrow> Some (Inl err, c)
      | Inr None \<Rightarrow> Some (Inl MissingOffsetError, c)
      | Inr (Some off) \<Rightarrow>
          (case lookup_or_build env c off of
             None \<Rightarrow> None
           | Some (Inl err, c') \<Rightarrow> Some (Inl err, c')
           | Some (Inr cachedRange, c') \<Rightarrow>
               (case slice_bounds env off cachedRange start en periods of
                  Inl err \<Rightarrow> Some (Inl err, c')
                | Inr (startLoc, endLoc) \<Rightarrow>
                    (let indexSlice = getitem_slice cachedRange (Some startLoc) (Some endLoc)
                     in Some (Inr (DateRange (vals indexSlice) (offset indexSlice)
                                     (Some cachedRange)), c')))))"

text \<open>
  The uncached path of \<open>__new__\<close> (lines 151-158): the generator is constructed, run to
  exhaustion and its output tagged with the offset passed to \<open>__new__\<close>.
\<close>

definition materialize ::
  "datetools \<Rightarrow> datetime option \<Rightarrow> datetime option \<Rightarrow> int option \<Rightarrow> DateOffset
     \<Rightarrow> string option \<Rightarrow> (error + DateRange) option" where
  "materialize env fd td periods offs tr =
     (case XDateRange_init env fd td periods offs tr of
        Inl err \<Rightarrow> Some (Inl err)
      | Inr xdr \<Rightarrow>
          (case XDateRange_list env xdr of
             None \<Rightarrow> None
           | Some arr \<Rightarrow> Some (Inr (DateRange arr (Some offs) None))))"

text \<open>The keyword arguments \<open>**kwds\<close> that \<open>__new__\<close> reads (\<open>None\<close> for an absent key).\<close>

record kwds =
  kw_index :: "datetime list option"
  kw_begin :: "datetime option"
  kw_end :: "datetime option"
  kw_nPeriods :: "int option"

definition no_kwds :: kwds where
  "no_kwds = \<lparr>kw_index = None, kw_begin = None, kw_end = None, kw_nPeriods = None\<rparr>"

text \<open>
  Lines 139-145: the test that sends a construction to the cache. A datetime is always
  true in Python, so \<open>not fromDate\<close> holds for \<open>None\<close> only, while \<open>not periods\<close> holds for
  \<open>None\<close> and for 0.
\<close>

definition fromInside :: "datetime option \<Rightarrow> bool" where
  "fromInside fd = (case fd of None \<Rightarrow> False | Some d \<Rightarrow> CACHE_START < d)"

definition toInside :: "datetime option \<Rightarrow> bool" where
  "toInside td = (case td of None \<Rightarrow> False | Some d \<Rightarrow> d < CACHE_END)"

definition useCache :: "datetime option \<Rightarrow> datetime option \<Rightarrow> bool" where
  "useCache fd td = (fromInside fd \<and> toInside td)"

text \<open>
  Lines 128-133: an argument that is not given (that is false) is read from its alias among
  the keyword arguments.
\<close>

definition boundary_or_alias :: "datetime option \<Rightarrow> datetime option \<Rightarrow> datetime option" where
  "boundary_or_alias given alias = (case given of None \<Rightarrow> alias | Some d \<Rightarrow> Some d)"

definition periods_or_alias :: "int option \<Rightarrow> int option \<Rightarrow> int option" where
  "periods_or_alias periods alias =
     (if periods = None \<or> periods = Some 0 then alias else periods)"

text \<open>\<open>DateRange.__new__\<close>, with the cache passed in and returned.\<close>

definition DateRange_new ::
  "datetools \<Rightarrow> cache \<Rightarrow> datetime option \<Rightarrow> datetime option \<Rightarrow> int option \<Rightarrow> DateOffset
     \<Rightarrow> string option \<Rightarrow> kwds \<Rightarrow> ((error + DateRange) \<times> cache) option" where
  "DateRange_new env c fd td periods offs tr kw =
     (case kw_index kw of
        Some arr \<Rightarrow> Some (Inr (fromIndex arr), c)
      | None \<Rightarrow>
          (let fd1 = boundary_or_alias fd (kw_begin kw);
               td1 = boundary_or_alias td (kw_end kw);
               periods1 = periods_or_alias periods (kw_nPeriods kw)
           in if useCache fd1 td1 \<and> isAnchored env offs \<and> \<not> isTick env offs
              then getCachedRange env c fd1 td1 periods1 (Some offs) tr
              else (case materialize env fd1 td1 periods1 offs tr of
                      None \<Rightarrow> None
                    | Some res \<Rightarrow> Some (res, c))))"

text \<open>
  \<open>DateRange.shift\<close>. The tail and the head are built by \<open>DateRange(fromDate=start,
  periods=n)\<close> and \<open>DateRange(toDate=end, periods=-n)\<close>, which name no offset: they use the
  default of \<open>__new__\<close>, \<open>datetools.bday\<close>.
\<close>

definition shift ::
  "datetools \<Rightarrow> cache \<Rightarrow> DateRange \<Rightarrow> int \<Rightarrow> ((error + DateRange) \<times> cache) option" where
  "shift env c self n =
     (if 0 < n then
        (case getitem_int self (- 1) of
           Inl err \<Rightarrow> Some (Inl err, c)
         | Inr lst \<Rightarrow>
             (case offset self of
                None \<Rightarrow> Some (Inl NoOffsetTypeError, c)
              | Some off \<Rightarrow>
                  (let start = plus_offset env lst off in
                   case DateRange_new env c (Some start) None (Some n) (bday env) None no_kwds of
                     None \<Rightarrow> None
                   | Some (Inl err, c') \<Rightarrow> Some (Inl err, c')
                   | Some (Inr tail, c') \<Rightarrow>
                       Some (Inr (DateRange (vals (getitem_slice self (Some n) None) @ vals tail)
                                    (offset self) None), c'))))
      else if n < 0 then
        (case getitem_int self 0 of
           Inl err \<Rightarrow> Some (Inl err, c)
         | Inr first \<Rightarrow>
             (case offset self of
                None \<Rightarrow> Some (Inl NoOffsetTypeError, c)
              | Some off \<Rightarrow>
                  (let en = minus_offset env first off in
                   case DateRange_new env c None (Some en) (Some (- n)) (bday env) None no_kwds of
                     None \<Rightarrow> None
                   | Some (Inl err, c') \<Rightarrow> Some (Inl err, c')
                   | Some (Inr head, c') \<Rightarrow>
                       Some (Inr (DateRange (vals head @ vals (getitem_slice self None (Some n)))
                                    (offset self) None), c'))))
      else Some (Inr self, c))"

section \<open>A standard datetools module\<close>

text \<open>
  Modelled from the spec: the offset classes of \<open>datetools\<close> are not part of the source
  file. Two of the spec's grid rules are modelled.
  \<^item> The business day (class \<open>BDay\<close>, the default offset): the grid is the weekdays, Monday
    to Friday; a unit step forward goes to the next weekday and a unit step backward to
    the previous one, keeping the time of day; the cursor is normalized first.
  \<^item> The calendar day (any other class): every instant is on the grid and a unit step is
    one day.
  For both, \<open>n\<close> unit steps are taken one after the other, rounding forward or backward is
  the identity on the grid and one unit step off it, an offset is anchored when \<open>n = 1\<close>,
  and none is a fixed-duration tick. There are no named rules.
\<close>

definition bday_next :: "datetime \<Rightarrow> datetime" where
  "bday_next t =
     t + day_seconds * (if weekday t = 4 then 3 else if weekday t = 5 then 2 else 1)"

definition bday_prev :: "datetime \<Rightarrow> datetime" where
  "bday_prev t =
     t - day_seconds * (if weekday t = 0 then 3 else if weekday t = 6 then 2 else 1)"

definition bday_apply :: "int \<Rightarrow> datetime \<Rightarrow> datetime" where
  "bday_apply k t = (if 0 \<le> k then (bday_next ^^ nat k) t else (bday_prev ^^ nat (- k)) t)"

definition BDay :: "int \<Rightarrow> DateOffset" where
  "BDay k = \<lparr>off_class = ''BDay'', off_n = k\<rparr>"

definition Day :: "int \<Rightarrow> DateOffset" where
  "Day k = \<lparr>off_class = ''DateOffset'', off_n = k\<rparr>"

definition is_bday :: "DateOffset \<Rightarrow> bool" where
  "is_bday off = (off_class off = ''BDay'')"

definition std_datetools :: datetools where
  "std_datetools =
     \<lparr>add_offset = (\<lambda>off t. if is_bday off then bday_apply (off_n off) t
                             else t + off_n off * day_seconds),
      onOffset = (\<lambda>off t. if is_bday off then weekday t < 5 else True),
      rollforward = (\<lambda>off t. if is_bday off \<and> \<not> weekday t < 5 then bday_next t else t),
      rollback = (\<lambda>off t. if is_bday off \<and> \<not> weekday t < 5 then bday_prev t else t),
      isAnchored = (\<lambda>off. off_n off = 1),
      isTick = (\<lambda>off. False),
      normalizeFirst = is_bday,
      getOffset = (\<lambda>r. Inl BadRuleError),
      offsetNames = (\<lambda>off. None),
      bday = BDay 1\<rparr>"

section \<open>Notions used by the properties\<close>

text \<open>
  One step of the iteration, \<open>cur + offset\<close>, as a function of the cursor, and the offsets
  whose step moves every date strictly forward.
\<close>

definition advance :: "datetools \<Rightarrow> DateOffset \<Rightarrow> datetime \<Rightarrow> datetime" where
  "advance env off d = plus_offset env d off"

definition advances :: "datetools \<Rightarrow> DateOffset \<Rightarrow> bool" where
  "advances env off = (\<forall>d. d < plus_offset env d off)"

text \<open>
  Offsets whose steps span at least a day: one step backward moves a date back by a day or
  more, one unit step forward moves it forward by a day or more.
\<close>

definition steps_back_a_day :: "datetools \<Rightarrow> DateOffset \<Rightarrow> bool" where
  "steps_back_a_day env off =
     (\<forall>d. plus_offset env d (times_offset (- 1) off) \<le> d - day_seconds)"

definition unit_step_a_day :: "datetools \<Rightarrow> DateOffset \<Rightarrow> bool" where
  "unit_step_a_day env off = (\<forall>d. d + day_seconds \<le> plus_offset env d (unit_offset off))"


text \<open>How many of the three inputs of \<open>XDateRange\<close> are given.\<close>

definition usable_inputs :: "datetime option \<Rightarrow> datetime option \<Rightarrow> int option \<Rightarrow> nat" where
  "usable_inputs fd td np =
     (if fd = None then 0 else 1) + (if td = None then 0 else 1) + (if np = None then 0 else 1)"

text \<open>
  A generator over a single Monday whose \<open>fromDate\<close> is at noon and whose \<open>toDate\<close> is the
  midnight before it.
\<close>

definition noon_generator :: XDateRange where
  "noon_generator =
     \<lparr>x_offset = BDay 1, x_timeRule = None, fromDate = mk_datetime 2021 1 4 + 43200,
      toDate = mk_datetime 2021 1 4, nPeriods = None\<rparr>"

text \<open>
  The boundaries after lines 56-59: \<open>fromDate\<close> moved one unit step forward, \<open>toDate\<close> one unit
  step backward, when off the grid.
\<close>

definition snapped_from :: "datetools \<Rightarrow> DateOffset \<Rightarrow> datetime \<Rightarrow> datetime" where
  "snapped_from env off d =
     (if onOffset env off d then d else plus_offset env d (unit_offset off))"

definition snapped_to :: "datetools \<Rightarrow> DateOffset \<Rightarrow> datetime \<Rightarrow> datetime" where
  "snapped_to env off e =
     (if onOffset env off e then e else minus_offset env e (unit_offset off))"

text \<open>A business-day generator from Tuesday 2021-01-05 back to Monday 2021-01-04.\<close>

definition reversed_generator :: XDateRange where
  "reversed_generator =
     \<lparr>x_offset = BDay 1, x_timeRule = None, fromDate = mk_datetime 2021 1 5,
      toDate = mk_datetime 2021 1 4, nPeriods = None\<rparr>"


text \<open>
  A generator collapsed to empty whose business-day offset has \<open>n = 0\<close>: its \<open>toDate\<close> is its
  \<open>fromDate\<close>.
\<close>

definition stuck_collapsed_generator :: XDateRange where
  "stuck_collapsed_generator =
     \<lparr>x_offset = BDay 0, x_timeRule = None, fromDate = mk_datetime 2021 1 6,
      toDate = mk_datetime 2021 1 6, nPeriods = Some 0\<rparr>"


text \<open>The business days of the week of 2021-01-04, with or without a period count.\<close>

definition week_generator :: "int option \<Rightarrow> XDateRange" where
  "week_generator p =
     \<lparr>x_offset = BDay 1, x_timeRule = None, fromDate = mk_datetime 2021 1 4,
      toDate = mk_datetime 2021 1 8, nPeriods = p\<rparr>"

text \<open>
  The contract of an offset's grid, as the source relies on it: moving a date on the grid
  by any number of unit steps stays on the grid, one unit step forward or backward lands
  on the grid from anywhere, and normalizing to midnight keeps a date of a normalizing
  offset on the grid.
\<close>

definition keeps_grid :: "datetools \<Rightarrow> DateOffset \<Rightarrow> bool" where
  "keeps_grid env off =
     ((\<forall>d k. onOffset env off d \<longrightarrow> onOffset env off (add_offset env (off\<lparr>off_n := k\<rparr>) d))
      \<and> (\<forall>d. onOffset env off (add_offset env (off\<lparr>off_n := 1\<rparr>) d))
      \<and> (\<forall>d. onOffset env off (add_offset env (off\<lparr>off_n := - 1\<rparr>) d))
      \<and> (normalizeFirst env off \<longrightarrow> (\<forall>d. onOffset env off d \<longrightarrow> onOffset env off (normalize_date d))))"

text \<open>A generator whose calendar-day offset has \<open>n = 0\<close>.\<close>

definition stuck_generator :: XDateRange where
  "stuck_generator =
     \<lparr>x_offset = Day 0, x_timeRule = None, fromDate = mk_datetime 2021 1 4,
      toDate = mk_datetime 2021 1 5, nPeriods = None\<rparr>"

text \<open>Lines 174-175 of \<open>getCachedRange\<close>: the offset after the rule name is resolved.\<close>

definition resolve_cached_offset ::
  "datetools \<Rightarrow> DateOffset option \<Rightarrow> string option \<Rightarrow> error + DateOffset option" where
  "resolve_cached_offset env offs tr =
     (case tr of None \<Rightarrow> Inr offs | Some r \<Rightarrow> map_sum id Some (getOffset env r))"

text \<open>Lines 219-220: the slice \<open>[startLoc:endLoc]\<close> of the canonical range, with its parent set.\<close>

definition cache_slice :: "DateRange \<Rightarrow> int \<Rightarrow> int \<Rightarrow> DateRange" where
  "cache_slice canon startLoc endLoc =
     DateRange (py_slice (vals canon) (Some startLoc) (Some endLoc)) (offset canon) (Some canon)"

text \<open>A range of one week of business days, and a cache holding it.\<close>

definition week_range :: DateRange where
  "week_range =
     DateRange [mk_datetime 2021 1 4, mk_datetime 2021 1 5, mk_datetime 2021 1 6,
                mk_datetime 2021 1 7, mk_datetime 2021 1 8] (Some (BDay 1)) None"

definition week_cache :: cache where
  "week_cache = Map.empty(BDay 1 \<mapsto> week_range)"

text \<open>
  A call of \<open>getCachedRange\<close> with its arguments, and a sequence of such calls run one after
  the other on the cache. The run returns, for each call, its result and the cache after
  it (\<open>None\<close> when a call never returns).
\<close>

record request =
  rq_start :: "datetime option"
  rq_end :: "datetime option"
  rq_periods :: "int option"
  rq_offset :: "DateOffset option"
  rq_timeRule :: "string option"

definition serve :: "datetools \<Rightarrow> cache \<Rightarrow> request \<Rightarrow> ((error + DateRange) \<times> cache) option" where
  "serve env c rq =
     getCachedRange env c (rq_start rq) (rq_end rq) (rq_periods rq) (rq_offset rq)
       (rq_timeRule rq)"

text \<open>A request for the business days of the week of 2021-01-04.\<close>

definition week_request :: request where
  "week_request =
     \<lparr>rq_start = Some (mk_datetime 2021 1 4), rq_end = Some (mk_datetime 2021 1 8),
      rq_periods = None, rq_offset = Some (BDay 1), rq_timeRule = None\<rparr>"

text \<open>The offset that a request resolves to, if any, moves every date forward.\<close>

definition request_advances :: "datetools \<Rightarrow> request \<Rightarrow> bool" where
  "request_advances env rq =
     (\<forall>off. resolve_cached_offset env (rq_offset rq) (rq_timeRule rq) = Inr (Some off)
        \<longrightarrow> advances env off)"

fun run_requests ::
  "datetools \<Rightarrow> cache \<Rightarrow> request list \<Rightarrow> ((error + DateRange) \<times> cache) list option" where
  "run_requests env c [] = Some []"
| "run_requests env c (rq # rqs) =
     (case serve env c rq of
        None \<Rightarrow> None
      | Some (res, c') \<Rightarrow> map_option ((#) (res, c')) (run_requests env c' rqs))"

text \<open>
  The cache lookup with a counter of the runs of the generator. \<open>n off\<close> is the number of
  times the generator has been run over the cache window for \<open>off\<close> (lines 181-185); it is
  incremented where \<open>build_canonical\<close> is called, and nowhere else. The counter is not a
  variable of the source: \<open>lookup_or_build_counted\<close> and \<open>getCachedRange_counted\<close> follow
  \<open>lookup_or_build\<close> and \<open>getCachedRange\<close> line by line and thread it through, and
  \<open>uncounted\<close> drops it again. \<open>run_counted\<close> runs a sequence of calls on the cache and the
  counter, and returns for each call its result, the cache and the counter after it.
\<close>

type_synonym run_count = "DateOffset \<Rightarrow> nat"

definition build_canonical_counted ::
  "datetools \<Rightarrow> run_count \<Rightarrow> DateOffset \<Rightarrow> ((error + DateRange) \<times> run_count) option" where
  "build_canonical_counted env n off =
     (case build_canonical env off of
        None \<Rightarrow> None
      | Some res \<Rightarrow> Some (res, n(off := Suc (n off))))"

definition lookup_or_build_counted ::
  "datetools \<Rightarrow> cache \<Rightarrow> run_count \<Rightarrow> DateOffset
     \<Rightarrow> ((error + DateRange) \<times> cache \<times> run_count) option" where
  "lookup_or_build_counted env c n off =
     (case c off of
        Some cachedRange \<Rightarrow> Some (Inr cachedRange, c, n)
      | None \<Rightarrow>
          (case build_canonical_counted env n off of
             None \<Rightarrow> None
           | Some (Inl err, n') \<Rightarrow> Some (Inl err, c, n')
           | Some (Inr cachedRange, n') \<Rightarrow>
               Some (Inr cachedRange, c(off \<mapsto> cachedRange), n')))"

definition getCachedRange_counted ::
  "datetools \<Rightarrow> cache \<Rightarrow> run_count \<Rightarrow> datetime option \<Rightarrow> datetime option \<Rightarrow> int option
     \<Rightarrow> DateOffset option \<Rightarrow> string option
     \<Rightarrow> ((error + DateRange) \<times> cache \<times> run_count) option" where
  "getCachedRange_counted env c n start en periods offs tr =
     (case (case tr of None \<Rightarrow> Inr offs | Some r \<Rightarrow> map_sum id Some (getOffset env r)) of
        Inl err \<Rightarrow> Some (Inl err, c, n)
      | Inr None \<Rightarrow> Some (Inl MissingOffsetError, c, n)
      | Inr (Some off) \<Rightarrow>
          (case lookup_or_build_counted env c n off of
             None \<Rightarrow> None
           | Some (Inl err, c', n') \<Rightarrow> Some (Inl err, c', n')
           | Some (Inr cachedRange, c', n') \<Rightarrow>
               (case slice_bounds env off cachedRange start en periods of
                  Inl err \<Rightarrow> Some (Inl err, c', n')
                | Inr (startLoc, endLoc) \<Rightarrow>
                    (let indexSlice = getitem_slice cachedRange (Some startLoc) (Some endLoc)
                     in Some (Inr (DateRange (vals indexSlice) (offset indexSlice)
                                     (Some cachedRange)), c', n')))))"

definition uncounted ::
  "(error + DateRange) \<times> cache \<times> run_count \<Rightarrow> (error + DateRange) \<times> cache" where
  "uncounted t = (fst t, fst (snd t))"

definition serve_counted ::
  "datetools \<Rightarrow> cache \<Rightarrow> run_count \<Rightarrow> request
     \<Rightarrow> ((error + DateRange) \<times> cache \<times> run_count) option" where
  "serve_counted env c n rq =
     getCachedRange_counted env c n (rq_start rq) (rq_end rq) (rq_periods rq) (rq_offset rq)
       (rq_timeRule rq)"

fun run_counted ::
  "datetools \<Rightarrow> cache \<Rightarrow> run_count \<Rightarrow> request list
     \<Rightarrow> ((error + DateRange) \<times> cache \<times> run_count) list option" where
  "run_counted env c n [] = Some []"
| "run_counted env c n (rq # rqs) =
     (case serve_counted env c n rq of
        None \<Rightarrow> None
      | Some (res, c', n') \<Rightarrow> map_option ((#) (res, c', n')) (run_counted env c' n' rqs))"

text \<open>
  The view that a call of \<open>getCachedRange\<close> takes from a canonical range (lines 191-220): the
  slice between the bounds, or the error of the bounds.
\<close>

definition view_of :: "datetools \<Rightarrow> DateOffset \<Rightarrow> DateRange \<Rightarrow> request \<Rightarrow> error + DateRange" where
  "view_of env off cachedRange rq =
     (case slice_bounds env off cachedRange (rq_start rq) (rq_end rq) (rq_periods rq) of
        Inl err \<Rightarrow> Inl err
      | Inr (startLoc, endLoc) \<Rightarrow> Inr (cache_slice cachedRange startLoc endLoc))"

text \<open>
  The specification's words for the eligibility of a boundary: it is given and lies
  strictly inside the window (1950-01-01, 2030-01-01). The test of the source, for
  comparison, is \<open>useCache\<close>; \<open>takes_cache\<close> is the whole condition of line 144.
\<close>

definition spec_inside_window :: "datetime option \<Rightarrow> bool" where
  "spec_inside_window b =
     (case b of None \<Rightarrow> False | Some d \<Rightarrow> CACHE_START < d \<and> d < CACHE_END)"

definition takes_cache :: "datetools \<Rightarrow> datetime option \<Rightarrow> datetime option \<Rightarrow> DateOffset \<Rightarrow> bool" where
  "takes_cache env fd td offs = (useCache fd td \<and> isAnchored env offs \<and> \<not> isTick env offs)"

text \<open>Two ranges of consecutive calendar days: a Thursday and Friday, a Monday and Tuesday.\<close>

definition thu_fri :: DateRange where
  "thu_fri = DateRange [mk_datetime 2021 1 7, mk_datetime 2021 1 8] (Some (Day 1)) None"

definition mon_tue :: DateRange where
  "mon_tue = DateRange [mk_datetime 2021 1 4, mk_datetime 2021 1 5] (Some (Day 1)) None"

text \<open>
  The invariant of a range under an offset: every element is on the grid, each element is
  its predecessor plus the offset, and the elements are strictly increasing.
\<close>

definition grid_range :: "datetools \<Rightarrow> DateOffset \<Rightarrow> datetime list \<Rightarrow> bool" where
  "grid_range env off xs =
     ((\<forall>d\<in>set xs. onOffset env off d)
      \<and> (\<forall>i. Suc i < length xs \<longrightarrow> xs ! Suc i = plus_offset env (xs ! i) off)
      \<and> sorted_wrt (<) xs)"

section \<open>The iteration\<close>

lemma exhaust_stop: "toDate x < cur \<Longrightarrow> exhaust env x cur = Some []"
  by (subst exhaust.simps) (simp add: XDateRange_next_def)

lemma exhaust_step:
  "cur \<le> toDate x \<Longrightarrow>
   exhaust env x cur = map_option ((#) cur) (exhaust env x (advance env (x_offset x) cur))"
  by (subst exhaust.simps)
    (simp add: XDateRange_next_def advance_def map_option_case split: option.splits)

lemma exhaust_Nil_iff: "exhaust env x cur = Some [] \<longleftrightarrow> toDate x < cur"
proof (cases "toDate x < cur")
  case True
  then show ?thesis by (simp add: exhaust_stop)
next
  case False
  then have "cur \<le> toDate x" by simp
  then show ?thesis using False by (simp add: exhaust_step)
qed

lemma exhaust_Cons:
  assumes "exhaust env x cur = Some (a # xs)"
  shows "cur \<le> toDate x \<and> a = cur \<and> exhaust env x (advance env (x_offset x) cur) = Some xs"
proof -
  have le: "cur \<le> toDate x"
    using assms by (cases "cur \<le> toDate x") (auto simp: exhaust_stop)
  then show ?thesis using assms by (auto simp: exhaust_step)
qed

text \<open>The loop ends when every step moves the cursor forward: dates are whole seconds.\<close>

lemma exhaust_terminates:
  assumes "advances env (x_offset x)"
  shows "\<exists>xs. exhaust env x cur = Some xs"
proof (induction "nat (toDate x + 1 - cur)" arbitrary: cur rule: less_induct)
  case less
  show ?case
  proof (cases "cur \<le> toDate x")
    case False
    then show ?thesis by (simp add: exhaust_stop)
  next
    case True
    let ?c = "advance env (x_offset x) cur"
    have "cur < ?c" using assms by (simp add: advances_def advance_def)
    then have "nat (toDate x + 1 - ?c) < nat (toDate x + 1 - cur)" using True by linarith
    then obtain ys where "exhaust env x ?c = Some ys" using less by blast
    then show ?thesis using True by (simp add: exhaust_step)
  qed
qed

lemma exhaust_nth:
  "exhaust env x cur = Some xs \<Longrightarrow> i < length xs \<Longrightarrow>
   xs ! i = (advance env (x_offset x) ^^ i) cur \<and> xs ! i \<le> toDate x"
proof (induction xs arbitrary: cur i)
  case Nil
  then show ?case by simp
next
  case (Cons a xs)
  note c = exhaust_Cons[OF Cons.prems(1)]
  show ?case
  proof (cases i)
    case 0
    then show ?thesis using c by simp
  next
    case (Suc j)
    then have "j < length xs" using Cons.prems(2) by simp
    with Cons.IH[of "advance env (x_offset x) cur" j] c show ?thesis
      using Suc by (simp add: funpow_swap1)
  qed
qed

lemma exhaust_end:
  "exhaust env x cur = Some xs \<Longrightarrow> toDate x < (advance env (x_offset x) ^^ length xs) cur"
proof (induction xs arbitrary: cur)
  case Nil
  then show ?case by (simp add: exhaust_Nil_iff)
next
  case (Cons a xs)
  note c = exhaust_Cons[OF Cons.prems(1)]
  with Cons.IH[of "advance env (x_offset x) cur"] show ?case by (simp add: funpow_swap1)
qed

lemma exhaust_adjacent:
  assumes "exhaust env x cur = Some xs" "Suc i < length xs"
  shows "xs ! Suc i = plus_offset env (xs ! i) (x_offset x)"
  using exhaust_nth[OF assms(1), of "Suc i"] exhaust_nth[OF assms(1), of i] assms(2)
  by (simp add: advance_def)

lemma exhaust_hd:
  "exhaust env x cur = Some xs \<Longrightarrow> xs \<noteq> [] \<Longrightarrow> hd xs = cur"
  using exhaust_nth[of env x cur xs 0] by (cases xs) auto

lemma exhaust_sorted:
  assumes "advances env (x_offset x)"
  shows "exhaust env x cur = Some xs \<Longrightarrow> sorted_wrt (<) xs \<and> (\<forall>d\<in>set xs. cur \<le> d)"
proof (induction xs arbitrary: cur)
  case Nil
  then show ?case by simp
next
  case (Cons a xs)
  note c = exhaust_Cons[OF Cons.prems(1)]
  have "cur < advance env (x_offset x) cur"
    using assms by (simp add: advances_def advance_def)
  with Cons.IH[of "advance env (x_offset x) cur"] c show ?case by fastforce
qed

lemma exhaust_onOffset:
  assumes "\<forall>d. onOffset env off d \<longrightarrow> onOffset env off (plus_offset env d (x_offset x))"
  shows "exhaust env x cur = Some xs \<Longrightarrow> onOffset env off cur \<Longrightarrow>
    \<forall>d\<in>set xs. onOffset env off d"
proof (induction xs arbitrary: cur)
  case Nil
  then show ?case by simp
next
  case (Cons a xs)
  note c = exhaust_Cons[OF Cons.prems(1)]
  have "onOffset env off (advance env (x_offset x) cur)"
    using assms Cons.prems(2) by (simp add: advance_def)
  with Cons.IH[of "advance env (x_offset x) cur"] c Cons.prems(2) show ?case by simp
qed

text \<open>Normalizing moves a date back by less than a day, and so does the starting cursor.\<close>

lemma normalize_date_bounds: "normalize_date t \<le> t \<and> t - day_seconds < normalize_date t"
proof -
  have "0 \<le> t mod day_seconds \<and> t mod day_seconds < day_seconds"
    by (simp add: day_seconds_def)
  then show ?thesis by (simp add: normalize_date_def)
qed

lemma start_cursor_bounds:
  "start_cursor env x \<le> fromDate x \<and> fromDate x - day_seconds < start_cursor env x"
  using normalize_date_bounds[of "fromDate x"] by (simp add: start_cursor_def day_seconds_def)

section \<open>The standard datetools module\<close>

lemmas date_simps = mk_datetime_def days_before_year_def days_before_month_def is_leap_def
  day_seconds_def weekday_def normalize_date_def

lemmas offset_simps = plus_offset_def minus_offset_def unit_offset_def times_offset_def
  neg_offset_def

lemmas std_simps = std_datetools_def BDay_def Day_def is_bday_def bday_apply_def bday_next_def
  bday_prev_def

lemmas init_simps = XDateRange_init_def resolve_offset_def resolve_timeRule_def
  snap_fromDate_def snap_toDate_def derive_toDate_def derive_fromDate_def

lemma weekday_shift: "weekday (t + day_seconds * k) = (weekday t + k) mod 7"
proof -
  have "(t + 86400 * k) div 86400 = t div 86400 + k" by simp
  then show ?thesis by (simp add: weekday_def day_seconds_def mod_simps add.commute)
qed

lemma weekday_range: "0 \<le> weekday t \<and> weekday t < 7"
  by (simp add: weekday_def)

lemma bday_next_gt: "t < bday_next t"
  by (simp add: bday_next_def day_seconds_def)

lemma bday_prev_lt: "bday_prev t < t"
  by (simp add: bday_prev_def day_seconds_def)

lemma bday_next_grid: "weekday (bday_next t) < 5"
  using weekday_range[of t] unfolding bday_next_def weekday_shift by presburger

lemma bday_prev_grid: "weekday (bday_prev t) < 5"
proof -
  have "bday_prev t =
      t + day_seconds * (- (if weekday t = 0 then 3 else if weekday t = 6 then 2 else 1))"
    by (simp add: bday_prev_def)
  then have "weekday (bday_prev t) =
      (weekday t + (- (if weekday t = 0 then 3 else if weekday t = 6 then 2 else 1))) mod 7"
    by (simp only: weekday_shift)
  then show ?thesis using weekday_range[of t] by presburger
qed

lemma funpow_gt:
  fixes f :: "int \<Rightarrow> int"
  assumes "\<And>t. t < f t"
  shows "0 < k \<Longrightarrow> t < (f ^^ k) t"
proof (induction k)
  case 0
  then show ?case by simp
next
  case (Suc k)
  have "(f ^^ k) t < f ((f ^^ k) t)" using assms by simp
  moreover have "t \<le> (f ^^ k) t" using Suc.IH by (cases k) auto
  ultimately show ?case by simp
qed

lemma bday_apply_gt: "0 < k \<Longrightarrow> t < bday_apply k t"
  using funpow_gt[of bday_next "nat k" t] bday_next_gt by (simp add: bday_apply_def)

lemma advances_BDay: "0 < k \<Longrightarrow> advances std_datetools (BDay k)"
  by (simp add: advances_def plus_offset_def std_datetools_def BDay_def is_bday_def bday_apply_gt)

lemma advances_Day: "0 < k \<Longrightarrow> advances std_datetools (Day k)"
  by (simp add: advances_def plus_offset_def std_datetools_def Day_def is_bday_def day_seconds_def)

lemma funpow_le:
  fixes f :: "int \<Rightarrow> int"
  assumes "\<And>t. f t \<le> t - c" and "0 \<le> c"
  shows "0 < k \<Longrightarrow> (f ^^ k) t \<le> t - c"
proof (induction k)
  case 0
  then show ?case by simp
next
  case (Suc k)
  have "f ((f ^^ k) t) \<le> (f ^^ k) t - c" using assms(1) by simp
  moreover have "(f ^^ k) t \<le> t" using Suc.IH assms(2) by (cases k) auto
  ultimately show ?case by simp
qed

lemma bday_prev_le: "bday_prev t \<le> t - day_seconds"
  by (simp add: bday_prev_def day_seconds_def)


lemma steps_back_a_day_BDay: "0 < k \<Longrightarrow> steps_back_a_day std_datetools (BDay k)"
  using funpow_le[of bday_prev day_seconds "nat k"] bday_prev_le
  by (simp add: steps_back_a_day_def plus_offset_def times_offset_def std_datetools_def BDay_def
      is_bday_def bday_apply_def day_seconds_def)


lemma unit_step_a_day_Day: "unit_step_a_day std_datetools (Day k)"
  by (simp add: unit_step_a_day_def plus_offset_def unit_offset_def std_datetools_def Day_def
      is_bday_def)


section \<open>Construction of the generator\<close>

text \<open>
  C4. A construction of \<open>XDateRange\<close> that is given fewer than two of \<open>fromDate\<close>, \<open>toDate\<close>
  and \<open>nPeriods\<close> raises and returns no generator: once the offset is resolved, the
  failure is the one the specification calls \<open>InsufficientParametersError\<close> (only an
  unknown rule name fails earlier, with its own error).
\<close>

theorem insufficient_parameters:
  "usable_inputs fd td np < 2 \<Longrightarrow>
   XDateRange_init env fd td np offs tr =
     (case resolve_offset env offs tr of
        Inl err \<Rightarrow> Inl err
      | Inr off \<Rightarrow> Inl InsufficientParametersError)"
  by (cases fd; cases td; cases np)
     (auto simp: usable_inputs_def init_simps split: sum.splits)

theorem insufficient_parameters_witness:
  "usable_inputs (Some (mk_datetime 2021 1 4)) None None < 2 \<and>
   XDateRange_init std_datetools (Some (mk_datetime 2021 1 4)) None None (BDay 1) None =
     Inl InsufficientParametersError"
  using insufficient_parameters[of "Some (mk_datetime 2021 1 4)" None None std_datetools
      "BDay 1" None]
  by (simp add: usable_inputs_def resolve_offset_def)

section \<open>Iteration of the generator\<close>

lemma noon_list: "XDateRange_list std_datetools noon_generator = Some [mk_datetime 2021 1 4]"
  by (simp add: XDateRange_list_def start_cursor_def noon_generator_def exhaust_step exhaust_stop
      advance_def date_simps offset_simps std_simps)

text \<open>
  The run of the iteration: the list of the dates yielded is empty exactly when \<open>toDate\<close> is
  before the starting cursor; the run ends when the offset's step moves every date
  forward; the \<open>i\<close>-th date yielded is the starting cursor advanced \<open>i\<close> times by the offset,
  each date yielded is at most \<open>toDate\<close>, and the cursor after the last one is beyond
  \<open>toDate\<close>.
\<close>

lemma iteration_run:
  "(XDateRange_list env x = Some [] \<longleftrightarrow> toDate x < start_cursor env x)
   \<and> (advances env (x_offset x) \<longrightarrow> (\<exists>ys. XDateRange_list env x = Some ys))
   \<and> (XDateRange_list env x = Some xs \<longrightarrow>
        (\<forall>i<length xs. xs ! i = (advance env (x_offset x) ^^ i) (start_cursor env x)
                        \<and> xs ! i \<le> toDate x)
        \<and> toDate x < (advance env (x_offset x) ^^ length xs) (start_cursor env x))"
proof (intro conjI impI allI)
  show "(XDateRange_list env x = Some []) = (toDate x < start_cursor env x)"
    by (simp add: XDateRange_list_def exhaust_Nil_iff)
  show "\<exists>ys. XDateRange_list env x = Some ys" if "advances env (x_offset x)"
    using that by (simp add: XDateRange_list_def exhaust_terminates)
  show "xs ! i = (advance env (x_offset x) ^^ i) (start_cursor env x)"
    if "XDateRange_list env x = Some xs" "i < length xs" for i
    using that exhaust_nth[of env x "start_cursor env x" xs i] by (simp add: XDateRange_list_def)
  show "xs ! i \<le> toDate x" if "XDateRange_list env x = Some xs" "i < length xs" for i
    using that exhaust_nth[of env x "start_cursor env x" xs i] by (simp add: XDateRange_list_def)
  show "toDate x < (advance env (x_offset x) ^^ length xs) (start_cursor env x)"
    if "XDateRange_list env x = Some xs"
    using that exhaust_end[of env x "start_cursor env x" xs] by (simp add: XDateRange_list_def)
qed

text \<open>
  C6. The iteration is to yield the dates \<open>fromDate, fromDate + offset, ...\<close> that are at most
  \<open>toDate\<close>, and nothing when \<open>toDate\<close> is before \<open>fromDate\<close>; the class promises dates with
  \<open>fromDate <= date <= toDate\<close>. The code does otherwise for an offset that normalizes the
  cursor: the business-day generator constructed from Monday 2021-01-04 12:00 to Monday
  2021-01-04 00:00 has its \<open>toDate\<close> before its \<open>fromDate\<close>, and yet the iteration yields one
  date, 2021-01-04 00:00, which is before \<open>fromDate\<close>.
\<close>

theorem normalized_cursor_before_fromDate:
  "XDateRange_init std_datetools (Some (mk_datetime 2021 1 4 + 43200))
      (Some (mk_datetime 2021 1 4)) None (BDay 1) None = Inr noon_generator
   \<and> toDate noon_generator < fromDate noon_generator
   \<and> XDateRange_list std_datetools noon_generator = Some [mk_datetime 2021 1 4]
   \<and> XDateRange_list std_datetools noon_generator \<noteq> Some []
   \<and> mk_datetime 2021 1 4 < fromDate noon_generator"
  by (simp add: noon_list)
   (simp add: noon_generator_def init_simps date_simps offset_simps std_simps)

section \<open>The empty range\<close>

lemma list_Nil_if_before: "toDate x < start_cursor env x \<Longrightarrow> XDateRange_list env x = Some []"
  by (simp add: XDateRange_list_def exhaust_stop)

lemma stuck_collapsed_never_ends:
  "XDateRange_list std_datetools stuck_collapsed_generator = None"
proof (cases "XDateRange_list std_datetools stuck_collapsed_generator")
  case None
  then show ?thesis .
next
  case (Some xs)
  have id: "advance std_datetools (x_offset stuck_collapsed_generator) = (\<lambda>d. d)"
    by (rule ext) (simp add: advance_def stuck_collapsed_generator_def offset_simps std_simps)
  have "(advance std_datetools (x_offset stuck_collapsed_generator) ^^ k) d = d" for k d
    by (induction k) (simp_all add: id)
  then have "toDate stuck_collapsed_generator
      < start_cursor std_datetools stuck_collapsed_generator"
    using exhaust_end[of std_datetools stuck_collapsed_generator
        "start_cursor std_datetools stuck_collapsed_generator" xs] Some
    by (simp add: XDateRange_list_def)
  then show ?thesis
    by (simp add: start_cursor_def stuck_collapsed_generator_def normalize_date_def date_simps
        std_simps)
qed

text \<open>
  C5, as stated, fails at three constructions with the standard offsets. With both
  boundaries on the grid, from Tuesday 2021-01-05 back to Monday 2021-01-04, nothing is
  collapsed: \<open>toDate\<close> is kept and the period count stays absent. From Monday 2021-01-04
  12:00 back to Monday 2021-01-04 00:00 the sequence is not empty: the cursor is normalized
  to midnight, which is not after \<open>toDate\<close>. With a business-day offset of \<open>n = 0\<close>, from
  Wednesday 2021-01-06 back to Sunday 2021-01-03, the range is collapsed, but \<open>toDate\<close> is
  derived as \<open>fromDate\<close> itself and the iteration never ends.
\<close>

theorem collapse_on_grid_counterexample:
  "XDateRange_init std_datetools (Some (mk_datetime 2021 1 5)) (Some (mk_datetime 2021 1 4))
      None (BDay 1) None = Inr reversed_generator
   \<and> onOffset std_datetools (BDay 1) (mk_datetime 2021 1 5)
   \<and> onOffset std_datetools (BDay 1) (mk_datetime 2021 1 4)
   \<and> toDate reversed_generator < fromDate reversed_generator
   \<and> nPeriods reversed_generator \<noteq> Some 0
   \<and> toDate reversed_generator = mk_datetime 2021 1 4
   \<and> XDateRange_init std_datetools (Some (mk_datetime 2021 1 4 + 43200))
      (Some (mk_datetime 2021 1 4)) None (BDay 1) None = Inr noon_generator
   \<and> toDate noon_generator < fromDate noon_generator
   \<and> XDateRange_list std_datetools noon_generator \<noteq> Some []
   \<and> XDateRange_init std_datetools (Some (mk_datetime 2021 1 6)) (Some (mk_datetime 2021 1 3))
      None (BDay 0) None = Inr stuck_collapsed_generator
   \<and> snapped_to std_datetools (BDay 0) (mk_datetime 2021 1 3)
       < snapped_from std_datetools (BDay 0) (mk_datetime 2021 1 6)
   \<and> XDateRange_list std_datetools stuck_collapsed_generator = None"
  by (simp add: noon_list stuck_collapsed_never_ends)
    (simp add: reversed_generator_def noon_generator_def stuck_collapsed_generator_def
      snapped_to_def snapped_from_def init_simps date_simps offset_simps std_simps)

text \<open>
  C5, amended. With both boundaries given, no period count, and the snapped \<open>toDate\<close>
  before the snapped \<open>fromDate\<close>, the construction succeeds. When the given \<open>toDate\<close> was
  off the grid, the range is collapsed: the period count becomes 0, \<open>toDate\<close> is cleared and
  derived again as \<open>fromDate + (0 - 1) * offset\<close>, and the sequence has zero length for an
  offset whose step backward spans at least a day. When the given \<open>toDate\<close> was on the grid,
  in particular when both boundaries were, nothing is collapsed: the period count stays
  absent and \<open>toDate\<close> is kept; the sequence has zero length, unless the offset normalizes
  the cursor and the midnight of \<open>fromDate\<close> is not after \<open>toDate\<close>.
\<close>

theorem collapse_only_when_snapped:
  assumes "resolve_offset env offs tr = Inr off"
    and "snapped_to env off e < snapped_from env off d"
  shows "\<exists>x. XDateRange_init env (Some d) (Some e) None offs tr = Inr x
     \<and> fromDate x = snapped_from env off d
     \<and> (if onOffset env off e
        then nPeriods x = None \<and> toDate x = e
             \<and> (\<not> (normalizeFirst env off \<and> normalize_date (snapped_from env off d) \<le> e)
                  \<longrightarrow> XDateRange_list env x = Some [])
        else nPeriods x = Some 0
             \<and> toDate x = plus_offset env (snapped_from env off d) (times_offset (- 1) off)
             \<and> (steps_back_a_day env off \<longrightarrow> XDateRange_list env x = Some []))"
proof (cases "onOffset env off e")
  case True
  let ?x = "\<lparr>x_offset = off, x_timeRule = resolve_timeRule env off tr,
      fromDate = snapped_from env off d, toDate = e, nPeriods = None\<rparr>"
  have i: "XDateRange_init env (Some d) (Some e) None offs tr = Inr ?x"
    using assms(1) True
    by (cases "onOffset env off d")
      (simp_all add: XDateRange_init_def snap_fromDate_def snap_toDate_def derive_toDate_def
        derive_fromDate_def snapped_from_def Let_def)
  have "toDate ?x < start_cursor env ?x"
    if "\<not> (normalizeFirst env off \<and> normalize_date (snapped_from env off d) \<le> e)"
    using that assms(2) True by (auto simp: start_cursor_def snapped_to_def)
  then have "XDateRange_list env ?x = Some []"
    if "\<not> (normalizeFirst env off \<and> normalize_date (snapped_from env off d) \<le> e)"
    using that list_Nil_if_before[of ?x env] by blast
  then show ?thesis using i True by auto
next
  case False
  let ?x = "\<lparr>x_offset = off, x_timeRule = resolve_timeRule env off tr,
      fromDate = snapped_from env off d,
      toDate = plus_offset env (snapped_from env off d) (times_offset (- 1) off),
      nPeriods = Some 0\<rparr>"
  have i: "XDateRange_init env (Some d) (Some e) None offs tr = Inr ?x"
    using assms False
    by (cases "onOffset env off d")
      (simp_all add: XDateRange_init_def snap_fromDate_def snap_toDate_def derive_toDate_def
        derive_fromDate_def snapped_from_def snapped_to_def Let_def)
  have "toDate ?x < start_cursor env ?x" if "steps_back_a_day env off"
  proof -
    have "toDate ?x \<le> fromDate ?x - day_seconds"
      using that by (simp add: steps_back_a_day_def)
    then show ?thesis using start_cursor_bounds[of env ?x] by linarith
  qed
  then have "XDateRange_list env ?x = Some []" if "steps_back_a_day env off"
    using that list_Nil_if_before[of ?x env] by blast
  then show ?thesis using i False by auto
qed

theorem collapse_only_when_snapped_witness:
  "resolve_offset std_datetools (BDay 1) None = Inr (BDay 1)
   \<and> snapped_to std_datetools (BDay 1) (mk_datetime 2021 1 3)
       < snapped_from std_datetools (BDay 1) (mk_datetime 2021 1 6)
   \<and> \<not> onOffset std_datetools (BDay 1) (mk_datetime 2021 1 3)
   \<and> steps_back_a_day std_datetools (BDay 1)
   \<and> (\<exists>x. XDateRange_init std_datetools (Some (mk_datetime 2021 1 6))
            (Some (mk_datetime 2021 1 3)) None (BDay 1) None = Inr x
          \<and> nPeriods x = Some 0 \<and> toDate x = mk_datetime 2021 1 5
          \<and> XDateRange_list std_datetools x = Some [])
   \<and> snapped_to std_datetools (BDay 1) (mk_datetime 2021 1 4)
       < snapped_from std_datetools (BDay 1) (mk_datetime 2021 1 5)
   \<and> onOffset std_datetools (BDay 1) (mk_datetime 2021 1 4)
   \<and> \<not> (normalizeFirst std_datetools (BDay 1)
          \<and> normalize_date (snapped_from std_datetools (BDay 1) (mk_datetime 2021 1 5))
              \<le> mk_datetime 2021 1 4)
   \<and> (\<exists>x. XDateRange_init std_datetools (Some (mk_datetime 2021 1 5))
            (Some (mk_datetime 2021 1 4)) None (BDay 1) None = Inr x
          \<and> nPeriods x = None \<and> toDate x = mk_datetime 2021 1 4
          \<and> XDateRange_list std_datetools x = Some [])"
proof -
  have r: "resolve_offset std_datetools (BDay 1) None = Inr (BDay 1)"
    by (simp add: resolve_offset_def)
  have s: "snapped_to std_datetools (BDay 1) (mk_datetime 2021 1 3)
       < snapped_from std_datetools (BDay 1) (mk_datetime 2021 1 6)"
    by (simp add: snapped_to_def snapped_from_def date_simps offset_simps std_simps)
  have off: "\<not> onOffset std_datetools (BDay 1) (mk_datetime 2021 1 3)"
    by (simp add: date_simps std_simps)
  have b: "steps_back_a_day std_datetools (BDay 1)"
    by (simp add: steps_back_a_day_BDay)
  have t: "plus_offset std_datetools (snapped_from std_datetools (BDay 1) (mk_datetime 2021 1 6))
      (times_offset (- 1) (BDay 1)) = mk_datetime 2021 1 5"
    by (simp add: snapped_from_def date_simps offset_simps std_simps)
  have 1: "\<exists>x. XDateRange_init std_datetools (Some (mk_datetime 2021 1 6))
            (Some (mk_datetime 2021 1 3)) None (BDay 1) None = Inr x
          \<and> nPeriods x = Some 0 \<and> toDate x = mk_datetime 2021 1 5
          \<and> XDateRange_list std_datetools x = Some []"
    using collapse_only_when_snapped[OF r s] off b t by auto
  have s': "snapped_to std_datetools (BDay 1) (mk_datetime 2021 1 4)
       < snapped_from std_datetools (BDay 1) (mk_datetime 2021 1 5)"
    by (simp add: snapped_to_def snapped_from_def date_simps offset_simps std_simps)
  have on: "onOffset std_datetools (BDay 1) (mk_datetime 2021 1 4)"
    by (simp add: date_simps std_simps)
  have m: "\<not> (normalizeFirst std_datetools (BDay 1)
          \<and> normalize_date (snapped_from std_datetools (BDay 1) (mk_datetime 2021 1 5))
              \<le> mk_datetime 2021 1 4)"
    by (simp add: snapped_from_def normalize_date_def date_simps offset_simps std_simps)
  have 2: "\<exists>x. XDateRange_init std_datetools (Some (mk_datetime 2021 1 5))
            (Some (mk_datetime 2021 1 4)) None (BDay 1) None = Inr x
          \<and> nPeriods x = None \<and> toDate x = mk_datetime 2021 1 4
          \<and> XDateRange_list std_datetools x = Some []"
    using collapse_only_when_snapped[OF r s'] on m by auto
  from r s off b 1 s' on m 2 show ?thesis by blast
qed

section \<open>The period count\<close>

lemma exhaust_ignores_nPeriods:
  "exhaust env (x\<lparr>nPeriods := r\<rparr>) cur = exhaust env x cur"
proof (cases "exhaust env x cur")
  case None
  show ?thesis
  proof (cases "exhaust env (x\<lparr>nPeriods := r\<rparr>) cur")
    case None' : None
    then show ?thesis using None by simp
  next
    case (Some xs)
    have "exhaust env (x\<lparr>nPeriods := r\<rparr>) c = Some ys \<Longrightarrow> exhaust env x c = Some ys" for ys c
    proof (induction ys arbitrary: c)
      case Nil
      then show ?case using exhaust_Nil_iff[of env "x\<lparr>nPeriods := r\<rparr>" c]
        by (simp add: exhaust_stop)
    next
      case (Cons a ys)
      from exhaust_Cons[OF Cons.prems] Cons.IH[of "advance env (x_offset x) c"]
      show ?case by (simp add: exhaust_step)
    qed
    then show ?thesis using Some None by fastforce
  qed
next
  case (Some xs)
  have "exhaust env x c = Some ys \<Longrightarrow> exhaust env (x\<lparr>nPeriods := r\<rparr>) c = Some ys" for ys c
  proof (induction ys arbitrary: c)
    case Nil
    then show ?case using exhaust_Nil_iff[of env x c]
      by (simp add: exhaust_stop)
  next
    case (Cons a ys)
    from exhaust_Cons[OF Cons.prems] Cons.IH[of "advance env (x_offset x) c"]
    show ?case by (simp add: exhaust_step)
  qed
  then show ?thesis using Some by simp
qed

lemma list_ignores_nPeriods:
  "XDateRange_list env (x\<lparr>nPeriods := r\<rparr>) = XDateRange_list env x"
  by (simp add: XDateRange_list_def start_cursor_def exhaust_ignores_nPeriods)

lemma init_three:
  "XDateRange_init env (Some d) (Some e) (Some p) offs tr =
     (case resolve_offset env offs tr of
        Inl err \<Rightarrow> Inl err
      | Inr off \<Rightarrow> Inr \<lparr>x_offset = off, x_timeRule = resolve_timeRule env off tr,
            fromDate = snapped_from env off d, toDate = snapped_to env off e,
            nPeriods = Some p\<rparr>)"
  by (simp add: XDateRange_init_def snap_fromDate_def snap_toDate_def derive_toDate_def
        derive_fromDate_def snapped_from_def snapped_to_def Let_def split: sum.splits)

lemma week_list:
  "XDateRange_list std_datetools (week_generator p) =
     Some [mk_datetime 2021 1 4, mk_datetime 2021 1 5, mk_datetime 2021 1 6,
           mk_datetime 2021 1 7, mk_datetime 2021 1 8]"
  by (simp add: XDateRange_list_def start_cursor_def week_generator_def exhaust_step exhaust_stop
      advance_def date_simps offset_simps std_simps)

text \<open>
  C10. With \<open>fromDate\<close>, \<open>toDate\<close> and \<open>nPeriods\<close> all given, the generator stores the two
  snapped boundaries and the period count as given; the iteration never reads the period
  count, so two constructions that differ only in it yield the same sequence, and the
  number of dates may differ from the period count: the business days from Monday
  2021-01-04 to Friday 2021-01-08 with \<open>nPeriods = 2\<close> are five dates.
\<close>

theorem periods_not_consulted:
  "map_sum id (XDateRange_list env) (XDateRange_init env (Some d) (Some e) (Some p) offs tr)
     = map_sum id (XDateRange_list env) (XDateRange_init env (Some d) (Some e) (Some q) offs tr)
   \<and> (resolve_offset env offs tr = Inr off \<longrightarrow>
        (\<exists>x. XDateRange_init env (Some d) (Some e) (Some p) offs tr = Inr x
           \<and> fromDate x = snapped_from env off d \<and> toDate x = snapped_to env off e
           \<and> nPeriods x = Some p
           \<and> XDateRange_list env x = XDateRange_list env (x\<lparr>nPeriods := None\<rparr>)))
   \<and> XDateRange_init std_datetools (Some (mk_datetime 2021 1 4)) (Some (mk_datetime 2021 1 8))
        (Some 2) (BDay 1) None = Inr (week_generator (Some 2))
   \<and> map_option length (XDateRange_list std_datetools (week_generator (Some 2))) = Some 5"
proof (intro conjI impI)
  show "map_sum id (XDateRange_list env) (XDateRange_init env (Some d) (Some e) (Some p) offs tr)
     = map_sum id (XDateRange_list env) (XDateRange_init env (Some d) (Some e) (Some q) offs tr)"
  proof (cases "resolve_offset env offs tr")
    case (Inl err)
    then show ?thesis by (simp add: init_three)
  next
    case (Inr off')
    let ?x = "\<lambda>r. \<lparr>x_offset = off', x_timeRule = resolve_timeRule env off' tr,
            fromDate = snapped_from env off' d, toDate = snapped_to env off' e,
            nPeriods = r\<rparr>"
    have "XDateRange_list env (?x (Some p)) = XDateRange_list env ((?x (Some p))\<lparr>nPeriods := Some q\<rparr>)"
      by (simp only: list_ignores_nPeriods)
    then show ?thesis using Inr by (simp add: init_three)
  qed
  show "\<exists>x. XDateRange_init env (Some d) (Some e) (Some p) offs tr = Inr x
           \<and> fromDate x = snapped_from env off d \<and> toDate x = snapped_to env off e
           \<and> nPeriods x = Some p
           \<and> XDateRange_list env x = XDateRange_list env (x\<lparr>nPeriods := None\<rparr>)"
    if "resolve_offset env offs tr = Inr off"
    using that by (simp add: init_three list_ignores_nPeriods)
  show "XDateRange_init std_datetools (Some (mk_datetime 2021 1 4)) (Some (mk_datetime 2021 1 8))
        (Some 2) (BDay 1) None = Inr (week_generator (Some 2))"
    by (simp add: week_generator_def init_simps date_simps offset_simps std_simps)
  show "map_option length (XDateRange_list std_datetools (week_generator (Some 2))) = Some 5"
    by (simp add: week_list)
qed

theorem periods_not_consulted_witness:
  "resolve_offset std_datetools (BDay 1) None = Inr (BDay 1)
   \<and> (\<exists>x. XDateRange_init std_datetools (Some (mk_datetime 2021 1 4))
           (Some (mk_datetime 2021 1 8)) (Some 2) (BDay 1) None = Inr x
         \<and> nPeriods x = Some 2
         \<and> XDateRange_list std_datetools x = XDateRange_list std_datetools (x\<lparr>nPeriods := None\<rparr>))"
  using periods_not_consulted[of std_datetools "mk_datetime 2021 1 4" "mk_datetime 2021 1 8" 2 "BDay 1" None 2
      "BDay 1"]
  by (auto simp: resolve_offset_def)

section \<open>Snapping the boundaries to the grid\<close>

lemma init_Inr:
  assumes "XDateRange_init env fd td np offs tr = Inr x"
  obtains off td1 np1 where
    "resolve_offset env offs tr = Inr off"
    "snap_toDate env off (snap_fromDate env off fd) td np = Inr (td1, np1)"
    "derive_toDate env off (snap_fromDate env off fd) td1 np1 = Inr (toDate x)"
    "derive_fromDate env off (snap_fromDate env off fd) (toDate x) np1 = Inr (fromDate x)"
    "x_offset x = off" "nPeriods x = np1"
  using assms
  by (auto simp: XDateRange_init_def Let_def split: sum.splits prod.splits)

lemma init_fromDate:
  assumes "resolve_offset env offs tr = Inr off"
    and "XDateRange_init env (Some d) td np offs tr = Inr x"
  shows "fromDate x = snapped_from env off d"
proof -
  have s: "snap_fromDate env off (Some d) = Some (snapped_from env off d)"
    by (simp add: snap_fromDate_def snapped_from_def)
  from assms(2) obtain np1 where
    "derive_fromDate env off (snap_fromDate env off (Some d)) (toDate x) np1 = Inr (fromDate x)"
    using assms(1) by (elim init_Inr) simp
  then show ?thesis using s by (simp add: derive_fromDate_def)
qed








section \<open>The grid invariant of generated ranges\<close>

lemma snapped_from_grid:
  "keeps_grid env off \<Longrightarrow> onOffset env off (snapped_from env off d)"
  by (simp add: keeps_grid_def snapped_from_def plus_offset_def unit_offset_def)

lemma snapped_to_grid:
  "keeps_grid env off \<Longrightarrow> onOffset env off (snapped_to env off e)"
  by (simp add: keeps_grid_def snapped_to_def minus_offset_def unit_offset_def neg_offset_def)

lemma init_fromDate_grid:
  assumes r: "resolve_offset env offs tr = Inr off"
    and k: "keeps_grid env off"
    and i: "XDateRange_init env fd td np offs tr = Inr x"
  shows "onOffset env off (fromDate x)"
proof (cases fd)
  case (Some d)
  then show ?thesis using init_fromDate[OF r, of d td np x] i k by (simp add: snapped_from_grid)
next
  case None
  from i obtain td1 np1 where
    a: "snap_toDate env off (snap_fromDate env off fd) td np = Inr (td1, np1)"
    and b: "derive_toDate env off (snap_fromDate env off fd) td1 np1 = Inr (toDate x)"
    and c: "derive_fromDate env off (snap_fromDate env off fd) (toDate x) np1 = Inr (fromDate x)"
    using r by (elim init_Inr) simp
  have s: "snap_fromDate env off fd = None" using None by (simp add: snap_fromDate_def)
  from b s obtain e' where t: "td1 = Some e'" "toDate x = e'"
    by (cases td1) (auto simp: derive_toDate_def split: option.splits)
  from a s t obtain e where e: "td = Some e" "e' = snapped_to env off e"
    by (cases td) (auto simp: snap_toDate_def snapped_to_def Let_def split: if_splits)
  from c s have "\<exists>p. minus_offset env (toDate x) (times_offset (p - 1) off) = fromDate x"
    by (cases np1) (auto simp: derive_fromDate_def)
  then obtain p where "fromDate x = minus_offset env (toDate x) (times_offset (p - 1) off)"
    by metis
  then show ?thesis using t e k snapped_to_grid[OF k, of e]
    by (simp add: keeps_grid_def minus_offset_def times_offset_def neg_offset_def)
qed

lemma generated_range_invariant:
  assumes r: "resolve_offset env offs tr = Inr off"
    and k: "keeps_grid env off"
    and a: "advances env off"
    and i: "XDateRange_init env fd td np offs tr = Inr x"
  shows "\<exists>xs. XDateRange_list env x = Some xs
     \<and> (\<forall>d\<in>set xs. onOffset env off d)
     \<and> (\<forall>i. Suc i < length xs \<longrightarrow> xs ! Suc i = plus_offset env (xs ! i) off)
     \<and> sorted_wrt (<) xs
     \<and> materialize env fd td np offs tr = Some (Inr (DateRange xs (Some offs) None))"
proof -
  have o: "x_offset x = off" using i r by (elim init_Inr) simp
  then obtain xs where xs: "exhaust env x (start_cursor env x) = Some xs"
    using exhaust_terminates[of env x "start_cursor env x"] a by auto
  have g: "onOffset env off (start_cursor env x)"
    using init_fromDate_grid[OF r k i] k o by (simp add: start_cursor_def keeps_grid_def)
  have step: "\<forall>d. onOffset env off d \<longrightarrow> onOffset env off (plus_offset env d (x_offset x))"
  proof (intro allI impI)
    fix d assume "onOffset env off d"
    then have "onOffset env off (add_offset env (off\<lparr>off_n := off_n off\<rparr>) d)"
      using k unfolding keeps_grid_def by blast
    then show "onOffset env off (plus_offset env d (x_offset x))"
      by (simp add: o plus_offset_def)
  qed
  have 1: "\<forall>d\<in>set xs. onOffset env off d"
    using exhaust_onOffset[OF step xs g] .
  have 2: "\<forall>i. Suc i < length xs \<longrightarrow> xs ! Suc i = plus_offset env (xs ! i) off"
    using exhaust_adjacent[OF xs] o by simp
  have 3: "sorted_wrt (<) xs"
    using exhaust_sorted[of env x "start_cursor env x" xs] a o xs by simp
  have 4: "materialize env fd td np offs tr = Some (Inr (DateRange xs (Some offs) None))"
    using i xs by (simp add: materialize_def XDateRange_list_def)
  show ?thesis using xs 1 2 3 4 by (simp add: XDateRange_list_def)
qed

lemma stuck_never_ends: "XDateRange_list std_datetools stuck_generator = None"
proof (cases "XDateRange_list std_datetools stuck_generator")
  case None
  then show ?thesis .
next
  case (Some xs)
  have id: "advance std_datetools (x_offset stuck_generator) = (\<lambda>d. d)"
    by (rule ext) (simp add: advance_def stuck_generator_def offset_simps std_simps)
  have "(advance std_datetools (x_offset stuck_generator) ^^ k) d = d" for k d
    by (induction k) (simp_all add: id)
  then have "toDate stuck_generator < start_cursor std_datetools stuck_generator"
    using exhaust_end[of std_datetools stuck_generator
        "start_cursor std_datetools stuck_generator" xs] Some
    by (simp add: XDateRange_list_def)
  then show ?thesis
    by (simp add: start_cursor_def stuck_generator_def date_simps std_simps)
qed

section \<open>The cache lookup\<close>

lemma indexMap_Some:
  "indexMap xs d = Some i \<Longrightarrow> i < length xs \<and> xs ! i = d"
proof -
  assume "indexMap xs d = Some i"
  then have "(d, i) \<in> set (rev (zip xs [0..<length xs]))"
    unfolding indexMap_def by (rule map_of_SomeD)
  then show ?thesis by (auto simp: in_set_zip)
qed

lemma indexMap_None: "indexMap xs d = None \<longleftrightarrow> d \<notin> set xs"
proof -
  have "fst ` set (zip xs [0..<length xs]) = set xs"
    using map_fst_zip[of xs "[0..<length xs]"] by (metis length_upt diff_zero set_map)
  then show ?thesis by (simp add: indexMap_def map_of_eq_None_iff)
qed

lemma py_slice_in_range:
  assumes "0 \<le> a" "a \<le> b" "b \<le> int (length xs)"
  shows "py_slice xs (Some a) (Some b) = map ((!) xs) [nat a..<nat b]"
proof -
  have "take (nat b - nat a) (drop (nat a) xs) = map ((!) xs) [nat a..<nat b]"
    using assms by (intro nth_equalityI) auto
  then show ?thesis using assms by (simp add: py_slice_def slice_index_def min_def)
qed

lemma getCachedRange_resolved:
  assumes "resolve_cached_offset env offs tr = Inr (Some off)"
    and "lookup_or_build env c off = Some (Inr canon, c')"
  shows "getCachedRange env c start en periods offs tr =
     Some (case slice_bounds env off canon start en periods of
             Inl err \<Rightarrow> Inl err
           | Inr (startLoc, endLoc) \<Rightarrow> Inr (cache_slice canon startLoc endLoc), c')"
  using assms
  by (simp add: getCachedRange_def resolve_cached_offset_def cache_slice_def getitem_slice_def
      Let_def split: sum.splits prod.splits)

text \<open>
  C2. Let the offset of a lookup be resolved, and let \<open>canon\<close> be its canonical range: the
  cache's entry, or the range built and stored by this lookup. With only \<open>end\<close> and a
  period count, the result is the slice \<open>[endLoc - periods : endLoc]\<close> of the canonical
  range, where \<open>endLoc\<close> is one more than the position of \<open>rollback(end)\<close>; with only \<open>start\<close>
  and a period count it is \<open>[startLoc : startLoc + periods]\<close>, where \<open>startLoc\<close> is the
  position of \<open>rollforward(start)\<close>; with both it is \<open>[position(rollforward(start)) :
  position(rollback(end)) + 1]\<close>. The slice is Python's (within bounds: the elements at
  the positions from \<open>startLoc\<close> up to \<open>endLoc - 1\<close>), it carries the canonical range's
  offset, and its parent is the canonical range.
\<close>

theorem cached_slice:
  assumes "resolve_cached_offset env offs tr = Inr (Some off)"
    and "lookup_or_build env c off = Some (Inr canon, c')"
  shows
   "(indexMap (vals canon) (rollback env off e) = Some i \<longrightarrow>
       getCachedRange env c None (Some e) (Some p) offs tr
         = Some (Inr (cache_slice canon (int i + 1 - p) (int i + 1)), c'))
    \<and> (indexMap (vals canon) (rollforward env off s) = Some j \<longrightarrow>
       getCachedRange env c (Some s) None (Some p) offs tr
         = Some (Inr (cache_slice canon (int j) (int j + p)), c'))
    \<and> (indexMap (vals canon) (rollforward env off s) = Some j
        \<and> indexMap (vals canon) (rollback env off e) = Some i \<longrightarrow>
       getCachedRange env c (Some s) (Some e) periods offs tr
         = Some (Inr (cache_slice canon (int j) (int i + 1)), c'))
    \<and> parent (cache_slice canon a b) = Some canon
    \<and> offset (cache_slice canon a b) = offset canon
    \<and> vals (cache_slice canon a b) = py_slice (vals canon) (Some a) (Some b)
    \<and> (0 \<le> a \<and> a \<le> b \<and> b \<le> int (length (vals canon)) \<longrightarrow>
         vals (cache_slice canon a b) = map ((!) (vals canon)) [nat a..<nat b])
    \<and> (indexMap (vals canon) d = Some k \<longrightarrow> k < length (vals canon) \<and> vals canon ! k = d)
    \<and> (c off = Some r \<longrightarrow> canon = r \<and> c' = c)"
proof (intro conjI impI)
  note g = getCachedRange_resolved[OF assms]
  show "getCachedRange env c None (Some e) (Some p) offs tr
         = Some (Inr (cache_slice canon (int i + 1 - p) (int i + 1)), c')"
    if "indexMap (vals canon) (rollback env off e) = Some i"
    using that by (simp add: g slice_bounds_def locate_def)
  show "getCachedRange env c (Some s) None (Some p) offs tr
         = Some (Inr (cache_slice canon (int j) (int j + p)), c')"
    if "indexMap (vals canon) (rollforward env off s) = Some j"
    using that by (simp add: g slice_bounds_def locate_def)
  show "getCachedRange env c (Some s) (Some e) periods offs tr
         = Some (Inr (cache_slice canon (int j) (int i + 1)), c')"
    if "indexMap (vals canon) (rollforward env off s) = Some j
        \<and> indexMap (vals canon) (rollback env off e) = Some i"
    using that by (simp add: g slice_bounds_def locate_def)
  show "parent (cache_slice canon a b) = Some canon" by (simp add: cache_slice_def)
  show "offset (cache_slice canon a b) = offset canon" by (simp add: cache_slice_def)
  show "vals (cache_slice canon a b) = py_slice (vals canon) (Some a) (Some b)"
    by (simp add: cache_slice_def)
  show "vals (cache_slice canon a b) = map ((!) (vals canon)) [nat a..<nat b]"
    if "0 \<le> a \<and> a \<le> b \<and> b \<le> int (length (vals canon))"
    using that by (simp add: cache_slice_def py_slice_in_range)
  show "k < length (vals canon)" if "indexMap (vals canon) d = Some k"
    using that indexMap_Some by blast
  show "vals canon ! k = d" if "indexMap (vals canon) d = Some k"
    using that indexMap_Some by blast
  show "canon = r" if "c off = Some r"
    using that assms(2) by (simp add: lookup_or_build_def)
  show "c' = c" if "c off = Some r"
    using that assms(2) by (simp add: lookup_or_build_def)
qed

lemma week_range_pos:
  "indexMap (vals week_range) (rollback std_datetools (BDay 1) (mk_datetime 2021 1 9)) = Some 4"
  by (simp add: week_range_def indexMap_def upt_rec[of 0] upt_rec[of 1] upt_rec[of 2]
      upt_rec[of 3] upt_rec[of 4] date_simps std_simps)

theorem cached_slice_witness:
  "resolve_cached_offset std_datetools (Some (BDay 1)) None = Inr (Some (BDay 1))
   \<and> lookup_or_build std_datetools week_cache (BDay 1) = Some (Inr week_range, week_cache)
   \<and> indexMap (vals week_range) (rollback std_datetools (BDay 1) (mk_datetime 2021 1 9)) = Some 4
   \<and> getCachedRange std_datetools week_cache None (Some (mk_datetime 2021 1 9)) (Some 2)
        (Some (BDay 1)) None
      = Some (Inr (DateRange [mk_datetime 2021 1 7, mk_datetime 2021 1 8] (Some (BDay 1))
                    (Some week_range)), week_cache)"
proof -
  have r: "resolve_cached_offset std_datetools (Some (BDay 1)) None = Inr (Some (BDay 1))"
    by (simp add: resolve_cached_offset_def)
  have l: "lookup_or_build std_datetools week_cache (BDay 1) = Some (Inr week_range, week_cache)"
    by (simp add: lookup_or_build_def week_cache_def)
  have s: "cache_slice week_range (int 4 + 1 - 2) (int 4 + 1)
      = DateRange [mk_datetime 2021 1 7, mk_datetime 2021 1 8] (Some (BDay 1)) (Some week_range)"
    by (simp add: cache_slice_def py_slice_def slice_index_def) (simp add: week_range_def)
  from cached_slice[OF r l, of "mk_datetime 2021 1 9" 4 2] week_range_pos
  have "getCachedRange std_datetools week_cache None (Some (mk_datetime 2021 1 9)) (Some 2)
        (Some (BDay 1)) None
      = Some (Inr (cache_slice week_range (int 4 + 1 - 2) (int 4 + 1)), week_cache)"
    by blast
  then show ?thesis using r l s week_range_pos by simp
qed

section \<open>The cache across requests\<close>

lemma build_canonical_cases:
  "build_canonical env off = None
   \<or> (\<exists>xs. build_canonical env off = Some (Inr (DateRange xs (Some off) None)))"
proof -
  have "\<exists>x. XDateRange_init env (Some CACHE_START) (Some CACHE_END) None off None = Inr x"
    by (simp add: XDateRange_init_def resolve_offset_def snap_fromDate_def snap_toDate_def
        derive_toDate_def derive_fromDate_def Let_def)
  then show ?thesis
    by (auto simp: build_canonical_def fromIndex_def split: option.splits)
qed

lemma lookup_or_build_Some:
  assumes "lookup_or_build env c off = Some (res, c')"
  shows "\<exists>r. res = Inr r \<and> c' = c(off \<mapsto> r)
     \<and> (c off = None \<longrightarrow> build_canonical env off = Some (Inr r))
     \<and> (\<forall>r0. c off = Some r0 \<longrightarrow> r = r0)"
proof (cases "c off")
  case (Some r0)
  then show ?thesis using assms by (auto simp: lookup_or_build_def)
next
  case None
  then show ?thesis using assms build_canonical_cases[of env off]
    by (auto simp: lookup_or_build_def)
qed

lemma getCachedRange_cases:
  assumes "getCachedRange env c s e p offs tr = Some (res, c')"
  shows "(c' = c \<and> (\<forall>off. resolve_cached_offset env offs tr \<noteq> Inr (Some off)))
     \<or> (\<exists>off r. resolve_cached_offset env offs tr = Inr (Some off)
           \<and> lookup_or_build env c off = Some (Inr r, c')
           \<and> res = (case slice_bounds env off r s e p of
                      Inl err \<Rightarrow> Inl err
                    | Inr (startLoc, endLoc) \<Rightarrow> Inr (cache_slice r startLoc endLoc)))"
proof (cases "resolve_cached_offset env offs tr")
  case (Inl err)
  then show ?thesis using assms
    by (simp add: getCachedRange_def resolve_cached_offset_def)
next
  case (Inr o1)
  show ?thesis
  proof (cases o1)
    case None
    then show ?thesis using assms Inr
      by (simp add: getCachedRange_def resolve_cached_offset_def)
  next
    case (Some off)
    then have r: "resolve_cached_offset env offs tr = Inr (Some off)" using Inr by simp
    then obtain res1 c1 where l: "lookup_or_build env c off = Some (res1, c1)"
      using assms by (cases "lookup_or_build env c off")
        (auto simp: getCachedRange_def resolve_cached_offset_def)
    then obtain r1 where r1: "res1 = Inr r1" using lookup_or_build_Some by blast
    show ?thesis using assms r l r1 getCachedRange_resolved[OF r, of c r1 c1 s e p]
      by simp
  qed
qed

lemma serve_mono:
  assumes "serve env c rq = Some (res, c')"
  shows "c \<subseteq>\<^sub>m c'"
proof -
  from assms getCachedRange_cases[of env c _ _ _ _ _ res c']
  consider "c' = c"
    | off r where "lookup_or_build env c off = Some (Inr r, c')"
    unfolding serve_def by blast
  then show ?thesis
  proof cases
    case 1
    then show ?thesis by simp
  next
    case 2
    from lookup_or_build_Some[OF 2] show ?thesis
      by (auto simp: map_le_def)
  qed
qed

lemma serve_stable:
  assumes "serve env c rq = Some (res, c')" and "c' \<subseteq>\<^sub>m c''"
  shows "serve env c'' rq = Some (res, c'')"
proof -
  let ?s = "rq_start rq" and ?e = "rq_end rq" and ?p = "rq_periods rq"
    and ?o = "rq_offset rq" and ?t = "rq_timeRule rq"
  from assms(1) have g: "getCachedRange env c ?s ?e ?p ?o ?t = Some (res, c')"
    by (simp add: serve_def)
  from getCachedRange_cases[OF g] show ?thesis
  proof (elim disjE conjE exE)
    assume n: "\<forall>off. resolve_cached_offset env ?o ?t \<noteq> Inr (Some off)" and "c' = c"
    have "getCachedRange env c'' ?s ?e ?p ?o ?t = Some (res, c'')"
    proof (cases "resolve_cached_offset env ?o ?t")
      case (Inl err)
      then show ?thesis using g
        by (simp add: getCachedRange_def resolve_cached_offset_def)
    next
      case (Inr o1)
      then have "o1 = None" using n by (cases o1) auto
      then show ?thesis using g Inr
        by (simp add: getCachedRange_def resolve_cached_offset_def)
    qed
    then show ?thesis by (simp add: serve_def)
  next
    fix off r
    assume r: "resolve_cached_offset env ?o ?t = Inr (Some off)"
      and l: "lookup_or_build env c off = Some (Inr r, c')"
      and res: "res = (case slice_bounds env off r ?s ?e ?p of
                      Inl err \<Rightarrow> Inl err
                    | Inr (startLoc, endLoc) \<Rightarrow> Inr (cache_slice r startLoc endLoc))"
    from lookup_or_build_Some[OF l] have "c' off = Some r" by auto
    then have "c'' off = Some r" using assms(2) by (auto simp: map_le_def dom_def)
    then have "lookup_or_build env c'' off = Some (Inr r, c'')"
      by (simp add: lookup_or_build_def)
    from getCachedRange_resolved[OF r this, of ?s ?e ?p] res show ?thesis
      by (simp add: serve_def)
  qed
qed

lemma serve_new_entry:
  assumes "serve env c rq = Some (res, c')" and "c off = None" and "c' off = Some r"
  shows "build_canonical env off = Some (Inr r)"
proof -
  from assms(1) getCachedRange_cases[of env c _ _ _ _ _ res c']
  consider "c' = c"
    | off' r' where "lookup_or_build env c off' = Some (Inr r', c')"
    unfolding serve_def by blast
  then show ?thesis
  proof cases
    case 1
    then show ?thesis using assms by simp
  next
    case 2
    from lookup_or_build_Some[OF 2] assms(2,3) show ?thesis
      by (cases "off = off'") (auto split: if_splits)
  qed
qed

lemma run_Cons:
  assumes "run_requests env c (rq # rqs) = Some trace"
  obtains res c' trace' where "serve env c rq = Some (res, c')"
    "run_requests env c' rqs = Some trace'" "trace = (res, c') # trace'"
  using assms by (auto split: option.splits)

lemma run_length: "run_requests env c rqs = Some trace \<Longrightarrow> length trace = length rqs"
proof (induction rqs arbitrary: c trace)
  case Nil
  then show ?case by simp
next
  case (Cons rq rqs)
  from Cons.prems show ?case by (elim run_Cons) (simp add: Cons.IH)
qed

lemma run_served:
  "run_requests env c rqs = Some trace \<Longrightarrow> j < length rqs \<Longrightarrow>
   \<exists>cj. c \<subseteq>\<^sub>m cj \<and> serve env cj (rqs ! j) = Some (trace ! j)"
proof (induction rqs arbitrary: c trace j)
  case Nil
  then show ?case by simp
next
  case (Cons rq rqs)
  from Cons.prems(1) obtain res c' trace' where
    s: "serve env c rq = Some (res, c')" and r: "run_requests env c' rqs = Some trace'"
    and t: "trace = (res, c') # trace'"
    by (elim run_Cons)
  show ?case
  proof (cases j)
    case 0
    have "c \<subseteq>\<^sub>m c" by simp
    moreover have "serve env c ((rq # rqs) ! j) = Some (trace ! j)" using 0 s t by simp
    ultimately show ?thesis by blast
  next
    case (Suc k)
    then have "k < length rqs" using Cons.prems(2) by simp
    from Cons.IH[OF r this] obtain cj where
      "c' \<subseteq>\<^sub>m cj" "serve env cj (rqs ! k) = Some (trace' ! k)" by blast
    moreover have "c \<subseteq>\<^sub>m c'" using serve_mono[OF s] .
    ultimately show ?thesis using Suc t by (auto intro: map_le_trans)
  qed
qed

lemma run_mono:
  assumes "run_requests env c rqs = Some trace" and "i < length trace"
  shows "c \<subseteq>\<^sub>m snd (trace ! i)"
proof -
  have "i < length rqs" using assms run_length by fastforce
  from run_served[OF assms(1) this] obtain ci where
    ci: "c \<subseteq>\<^sub>m ci" "serve env ci (rqs ! i) = Some (trace ! i)" by blast
  then have "ci \<subseteq>\<^sub>m snd (trace ! i)"
    using serve_mono[of env ci "rqs ! i" "fst (trace ! i)" "snd (trace ! i)"] by simp
  with ci(1) show ?thesis by (rule map_le_trans)
qed

lemma run_chain:
  "run_requests env c rqs = Some trace \<Longrightarrow> i \<le> j \<Longrightarrow> j < length trace \<Longrightarrow>
   snd (trace ! i) \<subseteq>\<^sub>m snd (trace ! j)"
proof (induction rqs arbitrary: c trace i j)
  case Nil
  then show ?case by simp
next
  case (Cons rq rqs)
  from Cons.prems(1) obtain res c' trace' where
    s: "serve env c rq = Some (res, c')" and r: "run_requests env c' rqs = Some trace'"
    and t: "trace = (res, c') # trace'"
    by (elim run_Cons)
  show ?case
  proof (cases i)
    case 0
    show ?thesis
    proof (cases j)
      case zero: 0
      then show ?thesis using 0 by simp
    next
      case (Suc k)
      then have "k < length trace'" using Cons.prems(3) t by simp
      from run_mono[OF r this] show ?thesis using 0 Suc t by simp
    qed
  next
    case (Suc i')
    then obtain j' where j: "j = Suc j'" using Cons.prems(2) by (cases j) auto
    then have "i' \<le> j'" "j' < length trace'" using Suc Cons.prems(2,3) t by auto
    from Cons.IH[OF r this] show ?thesis using Suc j t by simp
  qed
qed

lemma run_same_request:
  "run_requests env c rqs = Some trace \<Longrightarrow> i < j \<Longrightarrow> j < length rqs \<Longrightarrow>
   rqs ! i = rqs ! j \<Longrightarrow> fst (trace ! i) = fst (trace ! j)"
proof (induction rqs arbitrary: c trace i j)
  case Nil
  then show ?case by simp
next
  case (Cons rq rqs)
  from Cons.prems(1) obtain res c' trace' where
    s: "serve env c rq = Some (res, c')" and r: "run_requests env c' rqs = Some trace'"
    and t: "trace = (res, c') # trace'"
    by (elim run_Cons)
  obtain j' where j: "j = Suc j'" using Cons.prems(2) by (cases j) auto
  then have j': "j' < length rqs" using Cons.prems(3) by simp
  show ?case
  proof (cases i)
    case 0
    then have q: "rqs ! j' = rq" using Cons.prems(4) j by simp
    from run_served[OF r j'] obtain cj where
      cj: "c' \<subseteq>\<^sub>m cj" "serve env cj (rqs ! j') = Some (trace' ! j')" by blast
    from serve_stable[OF s cj(1)] cj(2) q have "trace' ! j' = (res, cj)" by simp
    then show ?thesis using 0 j t by simp
  next
    case (Suc i')
    then have "i' < j'" "rqs ! i' = rqs ! j'" using Cons.prems(2,4) j by auto
    from Cons.IH[OF r this(1) j' this(2)] show ?thesis using Suc j t by simp
  qed
qed

lemma run_canonical:
  assumes "run_requests env c rqs = Some trace" and "i < length trace"
    and "c off = None" and "snd (trace ! i) off = Some r"
  shows "build_canonical env off = Some (Inr r)"
  using assms
proof (induction rqs arbitrary: c trace i)
  case Nil
  then show ?case by simp
next
  case (Cons rq rqs)
  from Cons.prems(1) obtain res c' trace' where
    s: "serve env c rq = Some (res, c')" and r: "run_requests env c' rqs = Some trace'"
    and t: "trace = (res, c') # trace'"
    by (elim run_Cons)
  show ?case
  proof (cases "c' off")
    case None
    show ?thesis
    proof (cases i)
      case 0
      then show ?thesis using Cons.prems(4) t None by simp
    next
      case (Suc k)
      then have "k < length trace'" "snd (trace' ! k) off = Some r"
        using Cons.prems(2,4) t by auto
      from Cons.IH[OF r this(1) None this(2)] show ?thesis .
    qed
  next
    case (Some r')
    have "i < length trace" using Cons.prems(2) .
    then have "snd (trace ! 0) \<subseteq>\<^sub>m snd (trace ! i)"
      using run_chain[OF Cons.prems(1), of 0 i] by simp
    then have "r = r'" using Some Cons.prems(4) t by (auto simp: map_le_def dom_def)
    then show ?thesis using serve_new_entry[OF s Cons.prems(3) Some] by simp
  qed
qed

lemma build_canonical_total:
  assumes "advances env off"
  shows "\<exists>xs. build_canonical env off = Some (Inr (DateRange xs (Some off) None))"
proof -
  have "\<exists>x. XDateRange_init env (Some CACHE_START) (Some CACHE_END) None off None = Inr x"
    by (simp add: XDateRange_init_def resolve_offset_def snap_fromDate_def snap_toDate_def
        derive_toDate_def derive_fromDate_def Let_def)
  then obtain x where
    x: "XDateRange_init env (Some CACHE_START) (Some CACHE_END) None off None = Inr x" ..
  then have "x_offset x = off" by (elim init_Inr) (simp add: resolve_offset_def)
  then obtain xs where "XDateRange_list env x = Some xs"
    using exhaust_terminates[of env x "start_cursor env x"] assms
    by (auto simp: XDateRange_list_def)
  then show ?thesis using x by (simp add: build_canonical_def fromIndex_def)
qed

lemma serve_total:
  assumes "request_advances env rq"
  shows "\<exists>res c'. serve env c rq = Some (res, c')"
proof (cases "resolve_cached_offset env (rq_offset rq) (rq_timeRule rq)")
  case (Inl err)
  then show ?thesis
    by (simp add: serve_def getCachedRange_def resolve_cached_offset_def)
next
  case (Inr o1)
  show ?thesis
  proof (cases o1)
    case None
    then show ?thesis using Inr
      by (simp add: serve_def getCachedRange_def resolve_cached_offset_def)
  next
    case (Some off)
    then have r: "resolve_cached_offset env (rq_offset rq) (rq_timeRule rq) = Inr (Some off)"
      using Inr by simp
    then have "advances env off" using assms by (simp add: request_advances_def)
    from build_canonical_total[OF this] obtain r1 c1 where
      "lookup_or_build env c off = Some (Inr r1, c1)"
      by (cases "c off") (auto simp: lookup_or_build_def)
    from getCachedRange_resolved[OF r this] show ?thesis by (simp add: serve_def)
  qed
qed

lemma run_total:
  "\<forall>rq\<in>set rqs. request_advances env rq \<Longrightarrow> \<exists>trace. run_requests env c rqs = Some trace"
proof (induction rqs arbitrary: c)
  case Nil
  then show ?case by simp
next
  case (Cons rq rqs)
  then obtain res c' where s: "serve env c rq = Some (res, c')"
    using serve_total[of env rq c] by auto
  from Cons obtain trace' where "run_requests env c' rqs = Some trace'" by fastforce
  then show ?case using s by simp
qed

text \<open>
  The counted lookup returns what the lookup returns, and its counter moves exactly when
  the cache has no entry for the offset requested.
\<close>

lemma lookup_or_build_counted_erase:
  "map_option uncounted (lookup_or_build_counted env c n off) = lookup_or_build env c off"
  by (auto simp: lookup_or_build_counted_def lookup_or_build_def build_canonical_counted_def
      uncounted_def split: option.splits sum.splits)

lemma lookup_or_build_counted_count:
  assumes "lookup_or_build_counted env c n off = Some (res, c', n')"
  shows "n' = (if c off = None then n(off := Suc (n off)) else n)"
  using assms
  by (auto simp: lookup_or_build_counted_def build_canonical_counted_def
      split: option.splits sum.splits)

lemma getCachedRange_counted_erase:
  "map_option uncounted (getCachedRange_counted env c n s e p offs tr)
     = getCachedRange env c s e p offs tr"
proof (cases "resolve_cached_offset env offs tr")
  case (Inl err)
  then show ?thesis
    by (simp add: getCachedRange_counted_def getCachedRange_def resolve_cached_offset_def
        uncounted_def)
next
  case (Inr o1)
  show ?thesis
  proof (cases o1)
    case None
    then show ?thesis using Inr
      by (simp add: getCachedRange_counted_def getCachedRange_def resolve_cached_offset_def
          uncounted_def)
  next
    case (Some off)
    show ?thesis
    proof (cases "lookup_or_build_counted env c n off")
      case None
      then have "lookup_or_build env c off = None"
        using lookup_or_build_counted_erase[of env c n off] by simp
      then show ?thesis using None Some Inr
        by (simp add: getCachedRange_counted_def getCachedRange_def resolve_cached_offset_def)
    next
      case (Some t)
      obtain res c' n' where t: "t = (res, c', n')" by (cases t) auto
      then have "lookup_or_build env c off = Some (res, c')"
        using Some lookup_or_build_counted_erase[of env c n off] by (simp add: uncounted_def)
      then show ?thesis using Some t \<open>o1 = Some off\<close> Inr
        by (simp add: getCachedRange_counted_def getCachedRange_def resolve_cached_offset_def
            uncounted_def Let_def split: sum.splits prod.splits)
    qed
  qed
qed

lemma getCachedRange_counted_count:
  assumes "getCachedRange_counted env c n s e p offs tr = Some (res, c', n')"
  shows "n' = (case resolve_cached_offset env offs tr of
                 Inl err \<Rightarrow> n
               | Inr None \<Rightarrow> n
               | Inr (Some off) \<Rightarrow> if c off = None then n(off := Suc (n off)) else n)"
proof (cases "resolve_cached_offset env offs tr")
  case (Inl err)
  then show ?thesis using assms
    by (simp add: getCachedRange_counted_def resolve_cached_offset_def)
next
  case (Inr o1)
  show ?thesis
  proof (cases o1)
    case None
    then show ?thesis using Inr assms
      by (simp add: getCachedRange_counted_def resolve_cached_offset_def)
  next
    case (Some off)
    then obtain res1 c1 where "lookup_or_build_counted env c n off = Some (res1, c1, n')"
      using assms Inr
      by (cases "lookup_or_build_counted env c n off")
        (auto simp: getCachedRange_counted_def resolve_cached_offset_def Let_def
          split: sum.splits prod.splits)
    from lookup_or_build_counted_count[OF this] show ?thesis using Some Inr by simp
  qed
qed

lemma serve_counted_erase:
  "map_option uncounted (serve_counted env c n rq) = serve env c rq"
  by (simp add: serve_counted_def serve_def getCachedRange_counted_erase)

lemma serve_counted_serve:
  "serve_counted env c n rq = Some (res, c', n') \<Longrightarrow> serve env c rq = Some (res, c')"
  using serve_counted_erase[of env c n rq] by (simp add: uncounted_def)

lemma serve_counted_step:
  assumes "serve_counted env c n rq = Some (res, c', n')"
    and "resolve_cached_offset env (rq_offset rq) (rq_timeRule rq) = Inr (Some off)"
  shows "case c off of
           Some cachedRange \<Rightarrow> n' = n \<and> c' = c \<and> res = view_of env off cachedRange rq
         | None \<Rightarrow>
             n' = n(off := Suc (n off))
             \<and> (\<exists>canon. build_canonical env off = Some (Inr canon)
                  \<and> c' = c(off \<mapsto> canon) \<and> res = view_of env off canon rq)"
proof -
  have cnt: "n' = (if c off = None then n(off := Suc (n off)) else n)"
    using getCachedRange_counted_count[of env c n "rq_start rq" "rq_end rq" "rq_periods rq"
        "rq_offset rq" "rq_timeRule rq" res c' n'] assms
    by (simp add: serve_counted_def)
  have "getCachedRange env c (rq_start rq) (rq_end rq) (rq_periods rq) (rq_offset rq)
      (rq_timeRule rq) = Some (res, c')"
    using serve_counted_serve[OF assms(1)] by (simp add: serve_def)
  from getCachedRange_cases[OF this] assms(2) obtain r where
    l: "lookup_or_build env c off = Some (Inr r, c')" and v: "res = view_of env off r rq"
    by (auto simp: view_of_def)
  from lookup_or_build_Some[OF l] have
    c': "c' = c(off \<mapsto> r)" and b: "c off = None \<longrightarrow> build_canonical env off = Some (Inr r)"
    and h: "\<forall>r0. c off = Some r0 \<longrightarrow> r = r0"
    by auto
  show ?thesis
  proof (cases "c off")
    case None
    then show ?thesis using cnt c' b v by simp
  next
    case (Some r0)
    then have "r = r0" using h by simp
    then have "c' = c" using c' Some by (auto simp: fun_upd_idem)
    then show ?thesis using cnt Some v \<open>r = r0\<close> by simp
  qed
qed

lemma serve_counted_count:
  assumes "serve_counted env c n rq = Some (res, c', n')"
  shows "n' off = n off + (if c off = None \<and> c' off \<noteq> None then 1 else 0)"
proof (cases "\<exists>off0. resolve_cached_offset env (rq_offset rq) (rq_timeRule rq) = Inr (Some off0)")
  case True
  then obtain off0 where
    r: "resolve_cached_offset env (rq_offset rq) (rq_timeRule rq) = Inr (Some off0)" ..
  from serve_counted_step[OF assms r] show ?thesis
    by (cases "c off0"; cases "off = off0") auto
next
  case False
  have g: "getCachedRange env c (rq_start rq) (rq_end rq) (rq_periods rq) (rq_offset rq)
      (rq_timeRule rq) = Some (res, c')"
    using serve_counted_serve[OF assms] by (simp add: serve_def)
  from getCachedRange_cases[OF g] False have "c' = c" by auto
  moreover have "n' = n"
    using getCachedRange_counted_count[of env c n "rq_start rq" "rq_end rq" "rq_periods rq"
        "rq_offset rq" "rq_timeRule rq" res c' n'] assms False
    by (auto simp: serve_counted_def split: sum.splits option.splits)
  ultimately show ?thesis by auto
qed

lemma run_counted_Cons:
  assumes "run_counted env c n (rq # rqs) = Some trace"
  obtains res c' n' trace' where "serve_counted env c n rq = Some (res, c', n')"
    "run_counted env c' n' rqs = Some trace'" "trace = (res, c', n') # trace'"
  using assms by (auto split: option.splits)

lemma run_counted_erase:
  "map_option (map uncounted) (run_counted env c n rqs) = run_requests env c rqs"
proof (induction rqs arbitrary: c n)
  case Nil
  then show ?case by simp
next
  case (Cons rq rqs)
  show ?case
  proof (cases "serve_counted env c n rq")
    case None
    then have "serve env c rq = None" using serve_counted_erase[of env c n rq] by simp
    then show ?thesis using None by simp
  next
    case (Some t)
    obtain res c' n' where t: "t = (res, c', n')" by (cases t) auto
    then have s: "serve env c rq = Some (res, c')"
      using Some serve_counted_serve by simp
    show ?thesis using Some t s Cons.IH[of c' n', symmetric]
      by (cases "run_counted env c' n' rqs") (auto simp: uncounted_def)
  qed
qed

lemma run_counted_run:
  "run_counted env c n rqs = Some trace \<Longrightarrow> run_requests env c rqs = Some (map uncounted trace)"
  using run_counted_erase[of env c n rqs] by simp

lemma run_counted_total:
  assumes "\<forall>rq\<in>set rqs. request_advances env rq"
  shows "\<exists>trace. run_counted env c n rqs = Some trace"
proof -
  from run_total[OF assms] obtain t where "run_requests env c rqs = Some t" ..
  then show ?thesis using run_counted_erase[of env c n rqs]
    by (cases "run_counted env c n rqs") auto
qed

lemma run_counted_count:
  "run_counted env c n rqs = Some trace \<Longrightarrow> i < length trace \<Longrightarrow>
   snd (snd (trace ! i)) off =
     n off + (if c off = None \<and> fst (snd (trace ! i)) off \<noteq> None then 1 else 0)"
proof (induction rqs arbitrary: c n trace i)
  case Nil
  then show ?case by simp
next
  case (Cons rq rqs)
  from Cons.prems(1) obtain res c' n' trace' where
    s: "serve_counted env c n rq = Some (res, c', n')"
    and r: "run_counted env c' n' rqs = Some trace'"
    and t: "trace = (res, c', n') # trace'"
    by (elim run_counted_Cons)
  note st = serve_counted_count[OF s, of off]
  show ?case
  proof (cases i)
    case 0
    then show ?thesis using st t by simp
  next
    case (Suc k)
    then have k: "k < length trace'" using Cons.prems(2) t by simp
    have ih: "snd (snd (trace' ! k)) off =
        n' off + (if c' off = None \<and> fst (snd (trace' ! k)) off \<noteq> None then 1 else 0)"
      using Cons.IH[OF r k] .
    have "c' \<subseteq>\<^sub>m snd (map uncounted trace' ! k)"
      using run_mono[OF run_counted_run[OF r], of k] k by simp
    then have m: "c' \<subseteq>\<^sub>m fst (snd (trace' ! k))" using k by (simp add: uncounted_def)
    have p: "c' off \<noteq> None \<Longrightarrow> fst (snd (trace' ! k)) off \<noteq> None"
      using m by (auto simp: map_le_def dom_def)
    have q: "c off \<noteq> None \<Longrightarrow> c' off \<noteq> None"
      using serve_mono[OF serve_counted_serve[OF s]] by (auto simp: map_le_def dom_def)
    show ?thesis using st ih p q Suc t by (cases "c off"; cases "c' off") auto
  qed
qed

text \<open>
  C8. A sequence of cache lookups is run with a counter of the runs of the generator over
  the cache window. The run returns when the offsets requested move dates forward. A
  lookup that resolves to an offset runs the generator exactly when the cache has no entry
  for it, and then stores the canonical range built; when the cache has an entry, the
  lookup returns the view taken from that entry, runs no generator and leaves the cache as
  it is. In a run from any cache, for every offset: the generator has run once when the
  entry has been created since the start and not at all otherwise, so at most once, and
  never when the cache had an entry from the start; an entry of the cache, once present,
  is there unchanged after every later lookup (nothing is invalidated or evicted), and no
  later lookup runs the generator for it; an entry that was not in the starting cache is
  the canonical range built over the cache window; and two lookups with the same arguments
  return the same result.
\<close>

theorem canonical_built_once:
  "((\<forall>rq\<in>set rqs. request_advances env rq) \<longrightarrow> (\<exists>t. run_counted env c n rqs = Some t))
   \<and> (serve_counted env c n rq = Some (res, c', n')
        \<and> resolve_cached_offset env (rq_offset rq) (rq_timeRule rq) = Inr (Some off) \<longrightarrow>
      serve env c rq = Some (res, c')
      \<and> (case c off of
           Some cachedRange \<Rightarrow> n' = n \<and> c' = c \<and> res = view_of env off cachedRange rq
         | None \<Rightarrow>
             n' = n(off := Suc (n off))
             \<and> (\<exists>canon. build_canonical env off = Some (Inr canon)
                  \<and> c' = c(off \<mapsto> canon) \<and> res = view_of env off canon rq)))
   \<and> (run_counted env c n rqs = Some trace \<longrightarrow>
      run_requests env c rqs = Some (map uncounted trace)
      \<and> length trace = length rqs
      \<and> (\<forall>i. i < length trace \<longrightarrow>
            snd (snd (trace ! i)) off =
              n off + (if c off = None \<and> fst (snd (trace ! i)) off \<noteq> None then 1 else 0)
            \<and> snd (snd (trace ! i)) off \<le> n off + 1)
      \<and> (\<forall>i r. i < length trace \<and> c off = Some r \<longrightarrow>
            fst (snd (trace ! i)) off = Some r \<and> snd (snd (trace ! i)) off = n off)
      \<and> (\<forall>i j r. i \<le> j \<and> j < length trace \<and> fst (snd (trace ! i)) off = Some r \<longrightarrow>
            fst (snd (trace ! j)) off = Some r
            \<and> snd (snd (trace ! j)) off = snd (snd (trace ! i)) off)
      \<and> (\<forall>i r. i < length trace \<and> c off = None \<and> fst (snd (trace ! i)) off = Some r \<longrightarrow>
            build_canonical env off = Some (Inr r))
      \<and> (\<forall>i j. i < j \<and> j < length rqs \<and> rqs ! i = rqs ! j \<longrightarrow>
            fst (trace ! i) = fst (trace ! j)))"
proof (intro conjI allI impI)
  show "\<exists>t. run_counted env c n rqs = Some t" if "\<forall>rq\<in>set rqs. request_advances env rq"
    using run_counted_total[OF that] .
next
  assume s: "serve_counted env c n rq = Some (res, c', n')
      \<and> resolve_cached_offset env (rq_offset rq) (rq_timeRule rq) = Inr (Some off)"
  show "serve env c rq = Some (res, c')" using s serve_counted_serve by blast
  show "case c off of
           Some cachedRange \<Rightarrow> n' = n \<and> c' = c \<and> res = view_of env off cachedRange rq
         | None \<Rightarrow>
             n' = n(off := Suc (n off))
             \<and> (\<exists>canon. build_canonical env off = Some (Inr canon)
                  \<and> c' = c(off \<mapsto> canon) \<and> res = view_of env off canon rq)"
    using s serve_counted_step[of env c n rq res c' n' off] by blast
next
  assume a: "run_counted env c n rqs = Some trace"
  note b = run_counted_run[OF a]
  have l: "length (map uncounted trace) = length trace" by simp
  have sn: "snd (map uncounted trace ! i) = fst (snd (trace ! i))" if "i < length trace" for i
    using that by (simp add: uncounted_def)
  have fs: "fst (map uncounted trace ! i) = fst (trace ! i)" if "i < length trace" for i
    using that by (simp add: uncounted_def)
  show "run_requests env c rqs = Some (map uncounted trace)" using b .
  show len: "length trace = length rqs" using run_length[OF b] by simp
  show "snd (snd (trace ! i)) off =
      n off + (if c off = None \<and> fst (snd (trace ! i)) off \<noteq> None then 1 else 0)"
    if "i < length trace" for i
    using run_counted_count[OF a that] .
  show "snd (snd (trace ! i)) off \<le> n off + 1" if "i < length trace" for i
    using run_counted_count[OF a that, of off] by simp
  show "fst (snd (trace ! i)) off = Some r" if "i < length trace \<and> c off = Some r" for i r
    using run_mono[OF b, of i] that sn[of i] by (auto simp: map_le_def dom_def)
  show "snd (snd (trace ! i)) off = n off" if "i < length trace \<and> c off = Some r" for i r
    using run_counted_count[OF a, of i off] that by simp
  show "fst (snd (trace ! j)) off = Some r"
    if "i \<le> j \<and> j < length trace \<and> fst (snd (trace ! i)) off = Some r" for i j r
    using run_chain[OF b, of i j] that sn[of i] sn[of j] by (auto simp: map_le_def dom_def)
  show "snd (snd (trace ! j)) off = snd (snd (trace ! i)) off"
    if h: "i \<le> j \<and> j < length trace \<and> fst (snd (trace ! i)) off = Some r" for i j r
  proof -
    have "fst (snd (trace ! j)) off = Some r"
      using run_chain[OF b, of i j] h sn[of i] sn[of j] by (auto simp: map_le_def dom_def)
    then show ?thesis
      using run_counted_count[OF a, of i off] run_counted_count[OF a, of j off] h by simp
  qed
  show "build_canonical env off = Some (Inr r)"
    if "i < length trace \<and> c off = None \<and> fst (snd (trace ! i)) off = Some r" for i r
    using run_canonical[OF b, of i off r] that sn[of i] by simp
  show "fst (trace ! i) = fst (trace ! j)"
    if "i < j \<and> j < length rqs \<and> rqs ! i = rqs ! j" for i j
    using run_same_request[OF b, of i j] that fs[of i] fs[of j] len by simp
qed

theorem canonical_built_once_witness:
  "request_advances std_datetools week_request
   \<and> resolve_cached_offset std_datetools (rq_offset week_request) (rq_timeRule week_request)
       = Inr (Some (BDay 1))
   \<and> (\<exists>trace. run_counted std_datetools Map.empty (\<lambda>off. 0) [week_request, week_request]
          = Some trace
        \<and> length trace = 2
        \<and> fst (snd (trace ! 0)) (BDay 1) \<noteq> None
        \<and> snd (snd (trace ! 0)) (BDay 1) = 1
        \<and> snd (snd (trace ! 1)) (BDay 1) = 1
        \<and> fst (trace ! 0) = fst (trace ! 1))"
proof -
  let ?rqs = "[week_request, week_request]"
  let ?n = "(\<lambda>off. 0) :: run_count"
  have adv: "\<forall>rq\<in>set ?rqs. request_advances std_datetools rq"
    by (simp add: request_advances_def week_request_def resolve_cached_offset_def advances_BDay)
  have r: "resolve_cached_offset std_datetools (rq_offset week_request) (rq_timeRule week_request)
      = Inr (Some (BDay 1))"
    by (simp add: resolve_cached_offset_def week_request_def)
  have "\<exists>t. run_counted std_datetools Map.empty ?n ?rqs = Some t"
    using canonical_built_once[of ?rqs std_datetools Map.empty ?n, THEN conjunct1] adv
    by (rule mp)
  then obtain trace where t: "run_counted std_datetools Map.empty ?n ?rqs = Some trace" ..
  have "\<exists>res c1 n1 trace'. serve_counted std_datetools Map.empty ?n week_request
        = Some (res, c1, n1)
      \<and> trace = (res, c1, n1) # trace'"
    by (rule run_counted_Cons[OF t]) blast
  then obtain res c1 n1 trace' where
    s: "serve_counted std_datetools Map.empty ?n week_request = Some (res, c1, n1)"
    and e: "trace = (res, c1, n1) # trace'"
    by blast
  note step = canonical_built_once[of ?rqs std_datetools Map.empty ?n week_request res c1 n1
      "BDay 1" trace, THEN conjunct2, THEN conjunct1, THEN mp, OF conjI, OF s r, THEN conjunct2]
  from step have p: "fst (snd (trace ! 0)) (BDay 1) \<noteq> None" and q: "snd (snd (trace ! 0)) (BDay 1) = 1"
    using e by auto
  note body = canonical_built_once[of ?rqs std_datetools Map.empty ?n week_request res c1 n1
      "BDay 1" trace, THEN conjunct2, THEN conjunct2, THEN mp, OF t]
  have 1: "length trace = length ?rqs" using body by blast
  then have 6: "length trace = 2" by simp
  have 3: "\<forall>i j r. i \<le> j \<and> j < length trace \<and> fst (snd (trace ! i)) (BDay 1) = Some r \<longrightarrow>
            fst (snd (trace ! j)) (BDay 1) = Some r
            \<and> snd (snd (trace ! j)) (BDay 1) = snd (snd (trace ! i)) (BDay 1)"
    using body by (elim conjE)
  obtain r0 where "fst (snd (trace ! 0)) (BDay 1) = Some r0" using p by auto
  then have "(0::nat) \<le> 1 \<and> 1 < length trace \<and> fst (snd (trace ! 0)) (BDay 1) = Some r0"
    using 6 by simp
  then have "snd (snd (trace ! 1)) (BDay 1) = snd (snd (trace ! 0)) (BDay 1)"
    using 3 by blast
  then have 7: "snd (snd (trace ! 1)) (BDay 1) = 1" using q by simp
  have 4: "\<forall>i j. i < j \<and> j < length ?rqs \<and> ?rqs ! i = ?rqs ! j
           \<longrightarrow> fst (trace ! i) = fst (trace ! j)"
    using body by (elim conjE)
  have "(0::nat) < 1 \<and> 1 < length ?rqs \<and> ?rqs ! 0 = ?rqs ! 1" by simp
  then have 5: "fst (trace ! 0) = fst (trace ! 1)" using 4 by blast
  have 0: "request_advances std_datetools week_request" using adv by simp
  from 0 r t 6 p q 7 5 show ?thesis by blast
qed

section \<open>Construction of a range: cached or generated\<close>

lemma DateRange_new_dispatch:
  assumes "kw_index kw = None"
  shows "DateRange_new env c fd td periods offs tr kw =
    (if takes_cache env (boundary_or_alias fd (kw_begin kw)) (boundary_or_alias td (kw_end kw)) offs
     then getCachedRange env c (boundary_or_alias fd (kw_begin kw))
            (boundary_or_alias td (kw_end kw)) (periods_or_alias periods (kw_nPeriods kw))
            (Some offs) tr
     else map_option (\<lambda>res. (res, c))
            (materialize env (boundary_or_alias fd (kw_begin kw))
               (boundary_or_alias td (kw_end kw)) (periods_or_alias periods (kw_nPeriods kw))
               offs tr))"
  using assms by (simp add: DateRange_new_def takes_cache_def Let_def map_option_case)

lemma materialize_Inr:
  "materialize env fd td p offs tr = Some (Inr r) \<longleftrightarrow>
     (\<exists>x. XDateRange_init env fd td p offs tr = Inr x
        \<and> XDateRange_list env x = Some (vals r) \<and> offset r = Some offs \<and> parent r = None)"
  by (cases r) (auto simp: materialize_def split: sum.splits option.splits)

lemma materialize_Inl:
  "materialize env fd td p offs tr = Some (Inl err) \<longleftrightarrow> XDateRange_init env fd td p offs tr = Inl err"
  by (auto simp: materialize_def split: sum.splits option.splits)

text \<open>
  The choice of line 144, for a construction without a pre-built sequence: the cache
  lookup is taken if and only if, after the aliases are read, \<open>fromDate\<close> is given and after
  1950-01-01, \<open>toDate\<close> is given and before 2030-01-01, and the offset is anchored and no
  tick (for \<open>fromDate \<le> toDate\<close> this is both boundaries strictly inside the window). In
  every other case the cache is left as it is and the result is that of the generator: the
  exception of its construction, or its output run to exhaustion, materialized and tagged
  with the offset passed to the construction.
\<close>

theorem new_dispatch:
  assumes "kw_index kw = None"
    and "fd1 = boundary_or_alias fd (kw_begin kw)"
    and "td1 = boundary_or_alias td (kw_end kw)"
    and "p1 = periods_or_alias periods (kw_nPeriods kw)"
  shows
   "(takes_cache env fd1 td1 offs \<longrightarrow>
       DateRange_new env c fd td periods offs tr kw
         = getCachedRange env c fd1 td1 p1 (Some offs) tr)
    \<and> (\<not> takes_cache env fd1 td1 offs \<longrightarrow>
       DateRange_new env c fd td periods offs tr kw
         = map_option (\<lambda>res. (res, c)) (materialize env fd1 td1 p1 offs tr))
    \<and> (takes_cache env fd1 td1 offs \<longleftrightarrow>
         (\<exists>d e. fd1 = Some d \<and> td1 = Some e \<and> CACHE_START < d \<and> e < CACHE_END)
         \<and> isAnchored env offs \<and> \<not> isTick env offs)
    \<and> (fd1 = Some d \<and> td1 = Some e \<and> d \<le> e \<longrightarrow>
         (takes_cache env fd1 td1 offs \<longleftrightarrow>
            spec_inside_window fd1 \<and> spec_inside_window td1
            \<and> isAnchored env offs \<and> \<not> isTick env offs))
    \<and> (materialize env fd1 td1 p1 offs tr = Some (Inr r) \<longleftrightarrow>
         (\<exists>x. XDateRange_init env fd1 td1 p1 offs tr = Inr x
            \<and> XDateRange_list env x = Some (vals r) \<and> offset r = Some offs \<and> parent r = None))
    \<and> (materialize env fd1 td1 p1 offs tr = Some (Inl err) \<longleftrightarrow>
         XDateRange_init env fd1 td1 p1 offs tr = Inl err)"
proof (intro conjI impI)
  note d = DateRange_new_dispatch[OF assms(1), of env c fd td periods offs tr]
  show "DateRange_new env c fd td periods offs tr kw
         = getCachedRange env c fd1 td1 p1 (Some offs) tr"
    if "takes_cache env fd1 td1 offs"
    using that d assms(2-4) by simp
  show "DateRange_new env c fd td periods offs tr kw
         = map_option (\<lambda>res. (res, c)) (materialize env fd1 td1 p1 offs tr)"
    if "\<not> takes_cache env fd1 td1 offs"
    using that d assms(2-4) by simp
  show "takes_cache env fd1 td1 offs \<longleftrightarrow>
         (\<exists>d e. fd1 = Some d \<and> td1 = Some e \<and> CACHE_START < d \<and> e < CACHE_END)
         \<and> isAnchored env offs \<and> \<not> isTick env offs"
    by (cases fd1; cases td1)
      (auto simp: takes_cache_def useCache_def fromInside_def toInside_def)
  show "takes_cache env fd1 td1 offs \<longleftrightarrow>
            spec_inside_window fd1 \<and> spec_inside_window td1
            \<and> isAnchored env offs \<and> \<not> isTick env offs"
    if "fd1 = Some d \<and> td1 = Some e \<and> d \<le> e"
    using that
    by (auto simp: takes_cache_def useCache_def fromInside_def toInside_def
        spec_inside_window_def)
  show "materialize env fd1 td1 p1 offs tr = Some (Inr r) \<longleftrightarrow>
         (\<exists>x. XDateRange_init env fd1 td1 p1 offs tr = Inr x
            \<and> XDateRange_list env x = Some (vals r) \<and> offset r = Some offs \<and> parent r = None)"
    by (rule materialize_Inr)
  show "materialize env fd1 td1 p1 offs tr = Some (Inl err) \<longleftrightarrow>
         XDateRange_init env fd1 td1 p1 offs tr = Inl err"
    by (rule materialize_Inl)
qed

lemmas cache_window_simps = CACHE_START_def CACHE_END_def

lemma std_window_generator:
  "XDateRange_init std_datetools (Some CACHE_START) (Some CACHE_END) None (BDay 1) None
     = Inr \<lparr>x_offset = BDay 1, x_timeRule = None, fromDate = mk_datetime 1950 1 2,
            toDate = CACHE_END, nPeriods = None\<rparr>"
  by (simp add: init_simps cache_window_simps date_simps offset_simps std_simps)

lemma std_canonical_bounded:
  assumes "build_canonical std_datetools (BDay 1) = Some (Inr k)"
  shows "\<forall>d\<in>set (vals k). d \<le> CACHE_END"
proof -
  let ?x = "\<lparr>x_offset = BDay 1, x_timeRule = None, fromDate = mk_datetime 1950 1 2,
            toDate = CACHE_END, nPeriods = None\<rparr>"
  from assms have l: "XDateRange_list std_datetools ?x = Some (vals k)"
    by (auto simp: build_canonical_def std_window_generator fromIndex_def split: option.splits)
  show ?thesis
  proof
    fix d assume "d \<in> set (vals k)"
    then obtain i where "i < length (vals k)" "vals k ! i = d" by (auto simp: in_set_conv_nth)
    then show "d \<le> CACHE_END"
      using exhaust_nth[of std_datetools ?x "start_cursor std_datetools ?x" "vals k" i] l
      by (simp add: XDateRange_list_def)
  qed
qed

lemma late_start_not_found:
  "map_option fst (getCachedRange std_datetools Map.empty (Some (mk_datetime 2031 1 1))
      (Some (mk_datetime 1949 1 3)) None (Some (BDay 1)) None) = Some (Inl DateNotFoundError)"
proof -
  have r: "resolve_cached_offset std_datetools (Some (BDay 1)) None = Inr (Some (BDay 1))"
    by (simp add: resolve_cached_offset_def)
  obtain xs where b: "build_canonical std_datetools (BDay 1)
      = Some (Inr (DateRange xs (Some (BDay 1)) None))"
    using build_canonical_total[OF advances_BDay[of 1]] by auto
  then have l: "lookup_or_build std_datetools Map.empty (BDay 1)
      = Some (Inr (DateRange xs (Some (BDay 1)) None),
              Map.empty(BDay 1 \<mapsto> DateRange xs (Some (BDay 1)) None))"
    by (simp add: lookup_or_build_def)
  have f: "rollforward std_datetools (BDay 1) (mk_datetime 2031 1 1) = mk_datetime 2031 1 1"
    by (simp add: date_simps std_simps)
  have "\<not> mk_datetime 2031 1 1 \<le> CACHE_END"
    by (simp add: cache_window_simps date_simps)
  then have "mk_datetime 2031 1 1 \<notin> set xs"
    using std_canonical_bounded[OF b] by auto
  then have "locate (DateRange xs (Some (BDay 1)) None)
      (rollforward std_datetools (BDay 1) (mk_datetime 2031 1 1)) = Inl DateNotFoundError"
    by (simp add: locate_def f indexMap_None[symmetric])
  then show ?thesis
    by (simp add: getCachedRange_resolved[OF r l] slice_bounds_def)
qed

lemma late_start_generated:
  "materialize std_datetools (Some (mk_datetime 2031 1 1)) (Some (mk_datetime 1949 1 3)) None
      (BDay 1) None = Some (Inr (DateRange [] (Some (BDay 1)) None))"
proof -
  let ?x = "\<lparr>x_offset = BDay 1, x_timeRule = None, fromDate = mk_datetime 2031 1 1,
            toDate = mk_datetime 1949 1 3, nPeriods = None\<rparr>"
  have i: "XDateRange_init std_datetools (Some (mk_datetime 2031 1 1))
      (Some (mk_datetime 1949 1 3)) None (BDay 1) None = Inr ?x"
    by (simp add: init_simps date_simps offset_simps std_simps)
  have "XDateRange_list std_datetools ?x = Some []"
    by (rule list_Nil_if_before) (simp add: start_cursor_def date_simps std_simps)
  then show ?thesis using i by (simp add: materialize_def)
qed

text \<open>
  C3. The cache lookup should be taken only for boundaries strictly inside the window
  (1950-01-01, 2030-01-01); the source compares \<open>fromDate\<close> with the start of the window
  and \<open>toDate\<close> with its end only. A construction with the business-day offset, \<open>fromDate\<close>
  2031-01-01 and \<open>toDate\<close> 1949-01-03 has both boundaries outside the window, and yet takes
  the cache lookup, which raises for the date it cannot find, where the generator gives
  the empty range.
\<close>

theorem cache_taken_outside_window:
  "\<not> spec_inside_window (Some (mk_datetime 2031 1 1))
   \<and> \<not> spec_inside_window (Some (mk_datetime 1949 1 3))
   \<and> DateRange_new std_datetools Map.empty (Some (mk_datetime 2031 1 1))
        (Some (mk_datetime 1949 1 3)) None (BDay 1) None no_kwds
      = getCachedRange std_datetools Map.empty (Some (mk_datetime 2031 1 1))
          (Some (mk_datetime 1949 1 3)) None (Some (BDay 1)) None
   \<and> map_option fst (DateRange_new std_datetools Map.empty (Some (mk_datetime 2031 1 1))
        (Some (mk_datetime 1949 1 3)) None (BDay 1) None no_kwds)
      = Some (Inl DateNotFoundError)
   \<and> materialize std_datetools (Some (mk_datetime 2031 1 1)) (Some (mk_datetime 1949 1 3)) None
        (BDay 1) None = Some (Inr (DateRange [] (Some (BDay 1)) None))"
proof -
  have t: "takes_cache std_datetools (Some (mk_datetime 2031 1 1)) (Some (mk_datetime 1949 1 3))
      (BDay 1)"
    by (simp add: takes_cache_def useCache_def fromInside_def toInside_def cache_window_simps
        date_simps std_simps)
  have d: "DateRange_new std_datetools Map.empty (Some (mk_datetime 2031 1 1))
        (Some (mk_datetime 1949 1 3)) None (BDay 1) None no_kwds
      = getCachedRange std_datetools Map.empty (Some (mk_datetime 2031 1 1))
          (Some (mk_datetime 1949 1 3)) None (Some (BDay 1)) None"
    using t
    by (simp add: DateRange_new_dispatch no_kwds_def boundary_or_alias_def periods_or_alias_def)
  have w: "\<not> spec_inside_window (Some (mk_datetime 2031 1 1))"
    "\<not> spec_inside_window (Some (mk_datetime 1949 1 3))"
    by (simp_all add: spec_inside_window_def cache_window_simps date_simps)
  show ?thesis using w d late_start_not_found late_start_generated by simp
qed

lemma bday_apply_2: "bday_apply 2 t = bday_next (bday_next t)"
  by (simp add: bday_apply_def eval_nat_numeral)

lemma alternate_days:
  "materialize std_datetools (Some (mk_datetime 2021 1 4)) (Some (mk_datetime 2021 1 8)) None
      (BDay 2) None
     = Some (Inr (DateRange [mk_datetime 2021 1 4, mk_datetime 2021 1 6, mk_datetime 2021 1 8]
                    (Some (BDay 2)) None))"
proof -
  let ?x = "\<lparr>x_offset = BDay 2, x_timeRule = None, fromDate = mk_datetime 2021 1 4,
            toDate = mk_datetime 2021 1 8, nPeriods = None\<rparr>"
  have i: "XDateRange_init std_datetools (Some (mk_datetime 2021 1 4))
      (Some (mk_datetime 2021 1 8)) None (BDay 2) None = Inr ?x"
    by (simp add: init_simps date_simps offset_simps std_simps)
  have "XDateRange_list std_datetools ?x
      = Some [mk_datetime 2021 1 4, mk_datetime 2021 1 6, mk_datetime 2021 1 8]"
    by (simp add: XDateRange_list_def start_cursor_def exhaust_step exhaust_stop
        advance_def plus_offset_def std_datetools_def BDay_def is_bday_def bday_apply_2
        bday_next_def date_simps)
  then show ?thesis using i by (simp add: materialize_def)
qed

theorem new_dispatch_witness:
  "kw_index no_kwds = None
   \<and> takes_cache std_datetools (Some (mk_datetime 2021 1 4)) (Some (mk_datetime 2021 1 8)) (BDay 1)
   \<and> DateRange_new std_datetools week_cache (Some (mk_datetime 2021 1 4))
        (Some (mk_datetime 2021 1 8)) None (BDay 1) None no_kwds
      = getCachedRange std_datetools week_cache (Some (mk_datetime 2021 1 4))
          (Some (mk_datetime 2021 1 8)) None (Some (BDay 1)) None
   \<and> \<not> takes_cache std_datetools (Some (mk_datetime 2021 1 4)) (Some (mk_datetime 2021 1 8))
        (BDay 2)
   \<and> DateRange_new std_datetools week_cache (Some (mk_datetime 2021 1 4))
        (Some (mk_datetime 2021 1 8)) None (BDay 2) None no_kwds
      = Some (Inr (DateRange [mk_datetime 2021 1 4, mk_datetime 2021 1 6, mk_datetime 2021 1 8]
                     (Some (BDay 2)) None), week_cache)"
proof -
  let ?f = "Some (mk_datetime 2021 1 4)" and ?t = "Some (mk_datetime 2021 1 8)"
  have k: "kw_index no_kwds = None" by (simp add: no_kwds_def)
  have a: "?f = boundary_or_alias ?f (kw_begin no_kwds)"
    "?t = boundary_or_alias ?t (kw_end no_kwds)"
    "None = periods_or_alias None (kw_nPeriods no_kwds)"
    by (simp_all add: boundary_or_alias_def periods_or_alias_def no_kwds_def)
  have t1: "takes_cache std_datetools ?f ?t (BDay 1)"
    by (simp add: takes_cache_def useCache_def fromInside_def toInside_def cache_window_simps
        date_simps std_simps)
  have t2: "\<not> takes_cache std_datetools ?f ?t (BDay 2)"
    by (simp add: takes_cache_def std_simps)
  have 1: "DateRange_new std_datetools week_cache ?f ?t None (BDay 1) None no_kwds
      = getCachedRange std_datetools week_cache ?f ?t None (Some (BDay 1)) None"
    using new_dispatch[OF k a, of std_datetools "BDay 1" week_cache None, THEN conjunct1] t1
    by (rule mp)
  have 2: "DateRange_new std_datetools week_cache ?f ?t None (BDay 2) None no_kwds
      = map_option (\<lambda>res. (res, week_cache)) (materialize std_datetools ?f ?t None (BDay 2) None)"
    using new_dispatch[OF k a, of std_datetools "BDay 2" week_cache None, THEN conjunct2, THEN conjunct1]
      t2
    by (rule mp)
  show ?thesis using k t1 t2 1 2 alternate_days by simp
qed

section \<open>Shifting a range\<close>

lemma no_cache_without_toDate: "\<not> takes_cache env fd None offs"
  by (simp add: takes_cache_def useCache_def toInside_def)

lemma no_cache_without_fromDate: "\<not> takes_cache env None td offs"
  by (simp add: takes_cache_def useCache_def fromInside_def)

lemma new_from_periods:
  "n \<noteq> 0 \<Longrightarrow> DateRange_new env c (Some d) None (Some n) offs None no_kwds
     = map_option (\<lambda>res. (res, c)) (materialize env (Some d) None (Some n) offs None)"
  using DateRange_new_dispatch[of no_kwds env c "Some d" None "Some n" offs None]
  by (simp add: no_kwds_def boundary_or_alias_def periods_or_alias_def no_cache_without_toDate)

lemma new_to_periods:
  "n \<noteq> 0 \<Longrightarrow> DateRange_new env c None (Some d) (Some n) offs None no_kwds
     = map_option (\<lambda>res. (res, c)) (materialize env None (Some d) (Some n) offs None)"
  using DateRange_new_dispatch[of no_kwds env c None "Some d" "Some n" offs None]
  by (simp add: no_kwds_def boundary_or_alias_def periods_or_alias_def no_cache_without_fromDate)

text \<open>
  What \<open>shift\<close> does on a range that has elements and an offset: the kept elements are
  those of the slice, and the new ones are generated from the adjacent boundary with the
  default offset of \<open>DateRange\<close>, not with the offset of the range.
\<close>

lemma shift_forward:
  assumes "0 < n" and "vals self \<noteq> []" and "offset self = Some off"
  shows "shift env c self n =
     (case materialize env (Some (plus_offset env (last (vals self)) off)) None (Some n)
             (bday env) None of
        None \<Rightarrow> None
      | Some (Inl err) \<Rightarrow> Some (Inl err, c)
      | Some (Inr tail) \<Rightarrow>
          Some (Inr (DateRange (drop (nat n) (vals self) @ vals tail) (Some off) None), c))"
proof -
  have g: "getitem_int self (- 1) = Inr (last (vals self))"
    using assms(2) by (simp add: getitem_int_def Let_def last_conv_nth nat_diff_distrib')
  have s: "vals (getitem_slice self (Some n) None) = drop (nat n) (vals self)"
    using assms(1) by (simp add: getitem_slice_def py_slice_def slice_index_def min_def)
  show ?thesis using assms(1,3)
    by (simp add: shift_def g s new_from_periods Let_def split: option.splits sum.splits)
qed

lemma shift_backward:
  assumes "n < 0" and "vals self \<noteq> []" and "offset self = Some off"
  shows "shift env c self n =
     (case materialize env None (Some (minus_offset env (hd (vals self)) off)) (Some (- n))
             (bday env) None of
        None \<Rightarrow> None
      | Some (Inl err) \<Rightarrow> Some (Inl err, c)
      | Some (Inr head) \<Rightarrow>
          Some (Inr (DateRange (vals head @ take (length (vals self) - nat (- n)) (vals self))
                       (Some off) None), c))"
proof -
  have g: "getitem_int self 0 = Inr (hd (vals self))"
    using assms(2) by (simp add: getitem_int_def Let_def hd_conv_nth)
  have "nat (n + int (length (vals self))) = length (vals self) - nat (- n)"
    using assms(1) by linarith
  then have s: "vals (getitem_slice self None (Some n))
      = take (length (vals self) - nat (- n)) (vals self)"
    using assms(1) by (simp add: getitem_slice_def py_slice_def slice_index_def)
  show ?thesis using assms(1,3)
    by (simp add: shift_def g s new_to_periods Let_def split: option.splits sum.splits)
qed

lemma day_after_friday:
  "materialize std_datetools (Some (mk_datetime 2021 1 9)) None (Some 1) (BDay 1) None
     = Some (Inr (DateRange [mk_datetime 2021 1 11] (Some (BDay 1)) None))"
proof -
  let ?x = "\<lparr>x_offset = BDay 1, x_timeRule = None, fromDate = mk_datetime 2021 1 11,
            toDate = mk_datetime 2021 1 11, nPeriods = Some 1\<rparr>"
  have i: "XDateRange_init std_datetools (Some (mk_datetime 2021 1 9)) None (Some 1) (BDay 1)
      None = Inr ?x"
    by (simp add: init_simps date_simps offset_simps std_simps)
  have "XDateRange_list std_datetools ?x = Some [mk_datetime 2021 1 11]"
    by (simp add: XDateRange_list_def start_cursor_def exhaust_step exhaust_stop
        advance_def date_simps offset_simps std_simps)
  then show ?thesis using i by (simp add: materialize_def)
qed

lemma day_before_monday:
  "materialize std_datetools None (Some (mk_datetime 2021 1 3)) (Some 1) (BDay 1) None
     = Some (Inr (DateRange [mk_datetime 2021 1 1] (Some (BDay 1)) None))"
proof -
  let ?x = "\<lparr>x_offset = BDay 1, x_timeRule = None, fromDate = mk_datetime 2021 1 1,
            toDate = mk_datetime 2021 1 1, nPeriods = Some 1\<rparr>"
  have i: "XDateRange_init std_datetools None (Some (mk_datetime 2021 1 3)) (Some 1) (BDay 1)
      None = Inr ?x"
    by (simp add: init_simps date_simps offset_simps std_simps)
  have "XDateRange_list std_datetools ?x = Some [mk_datetime 2021 1 1]"
    by (simp add: XDateRange_list_def start_cursor_def exhaust_step exhaust_stop
        advance_def date_simps offset_simps std_simps)
  then show ?thesis using i by (simp add: materialize_def)
qed

lemma std_bday: "bday std_datetools = BDay 1"
  by (simp add: std_datetools_def)

lemma thu_fri_vals:
  "vals thu_fri = [mk_datetime 2021 1 7, mk_datetime 2021 1 8]" "offset thu_fri = Some (Day 1)"
  by (simp_all add: thu_fri_def)

lemma mon_tue_vals:
  "vals mon_tue = [mk_datetime 2021 1 4, mk_datetime 2021 1 5]" "offset mon_tue = Some (Day 1)"
  by (simp_all add: mon_tue_def)

text \<open>
  C1. \<open>shift(n)\<close> should append (for \<open>n > 0\<close>) or prepend (for \<open>n < 0\<close>) dates that continue
  the range in steps of its own offset. On a range of calendar days it does not:
  shifting Thursday 2021-01-07, Friday 2021-01-08 by 1 appends Monday 2021-01-11, where
  one step of the offset after Friday is Saturday 2021-01-09; shifting Monday 2021-01-04,
  Tuesday 2021-01-05 by -1 prepends Friday 2021-01-01, where one step of the offset before
  Monday is Sunday 2021-01-03. The results keep the offset of the range. Shifting by 0
  returns the range itself.
\<close>

theorem shift_ignores_offset:
  "shift std_datetools Map.empty thu_fri 1
     = Some (Inr (DateRange [mk_datetime 2021 1 8, mk_datetime 2021 1 11] (Some (Day 1)) None),
             Map.empty)
   \<and> plus_offset std_datetools (mk_datetime 2021 1 8) (Day 1) = mk_datetime 2021 1 9
   \<and> shift std_datetools Map.empty mon_tue (- 1)
     = Some (Inr (DateRange [mk_datetime 2021 1 1, mk_datetime 2021 1 4] (Some (Day 1)) None),
             Map.empty)
   \<and> minus_offset std_datetools (mk_datetime 2021 1 4) (Day 1) = mk_datetime 2021 1 3
   \<and> shift std_datetools Map.empty thu_fri 0 = Some (Inr thu_fri, Map.empty)"
proof (intro conjI)
  have p: "plus_offset std_datetools (mk_datetime 2021 1 8) (Day 1) = mk_datetime 2021 1 9"
    by (simp add: date_simps offset_simps std_simps)
  show "shift std_datetools Map.empty thu_fri 1
     = Some (Inr (DateRange [mk_datetime 2021 1 8, mk_datetime 2021 1 11] (Some (Day 1)) None),
             Map.empty)"
    by (simp add: shift_forward[where off = "Day 1"] thu_fri_vals p std_bday day_after_friday)
  show "plus_offset std_datetools (mk_datetime 2021 1 8) (Day 1) = mk_datetime 2021 1 9"
    by (rule p)
  have m: "minus_offset std_datetools (mk_datetime 2021 1 4) (Day 1) = mk_datetime 2021 1 3"
    by (simp add: date_simps offset_simps std_simps)
  show "shift std_datetools Map.empty mon_tue (- 1)
     = Some (Inr (DateRange [mk_datetime 2021 1 1, mk_datetime 2021 1 4] (Some (Day 1)) None),
             Map.empty)"
    by (simp add: shift_backward[where off = "Day 1"] mon_tue_vals m std_bday day_before_monday)
  show "minus_offset std_datetools (mk_datetime 2021 1 4) (Day 1) = mk_datetime 2021 1 3"
    by (rule m)
  show "shift std_datetools Map.empty thu_fri 0 = Some (Inr thu_fri, Map.empty)"
    by (simp add: shift_def)
qed

section \<open>The invariant of ranges\<close>

lemma grid_range_take_drop:
  assumes "grid_range env off xs"
  shows "grid_range env off (take n (drop a xs))"
proof -
  have 1: "\<forall>d\<in>set (take n (drop a xs)). onOffset env off d"
    using assms by (auto simp: grid_range_def dest!: in_set_takeD in_set_dropD)
  have 2: "take n (drop a xs) ! Suc i = plus_offset env (take n (drop a xs) ! i) off"
    if "Suc i < length (take n (drop a xs))" for i
  proof -
    from that have b: "Suc i < n" "a + Suc i < length xs" by auto
    then have "take n (drop a xs) ! Suc i = xs ! Suc (a + i)"
      "take n (drop a xs) ! i = xs ! (a + i)" by simp_all
    then show ?thesis using assms b by (simp add: grid_range_def)
  qed
  have 3: "sorted_wrt (<) (take n (drop a xs))"
    using assms by (simp add: grid_range_def sorted_wrt_take sorted_wrt_drop)
  show ?thesis using 1 2 3 by (simp add: grid_range_def)
qed

lemma grid_range_slice:
  "grid_range env off (vals canon) \<Longrightarrow> grid_range env off (vals (cache_slice canon a b))"
  by (simp add: cache_slice_def py_slice_def Let_def grid_range_take_drop)

lemma generated_grid_range:
  assumes "resolve_offset env offs tr = Inr off" and "keeps_grid env off" and "advances env off"
    and "XDateRange_init env fd td np offs tr = Inr x"
  shows "\<exists>xs. XDateRange_list env x = Some xs \<and> grid_range env off xs
     \<and> materialize env fd td np offs tr = Some (Inr (DateRange xs (Some offs) None))"
  using generated_range_invariant[OF assms] by (auto simp: grid_range_def)

lemma canonical_grid_range:
  assumes "keeps_grid env off" and "advances env off"
  shows "\<exists>canon. build_canonical env off = Some (Inr canon) \<and> offset canon = Some off
     \<and> grid_range env off (vals canon)"
proof -
  have r: "resolve_offset env off None = Inr off" by (simp add: resolve_offset_def)
  have "\<exists>x. XDateRange_init env (Some CACHE_START) (Some CACHE_END) None off None = Inr x"
    by (simp add: XDateRange_init_def resolve_offset_def snap_fromDate_def snap_toDate_def
        derive_toDate_def derive_fromDate_def Let_def)
  then obtain x where
    x: "XDateRange_init env (Some CACHE_START) (Some CACHE_END) None off None = Inr x" ..
  from generated_grid_range[OF r assms x] obtain xs where
    "XDateRange_list env x = Some xs" "grid_range env off xs" by blast
  then show ?thesis using x by (simp add: build_canonical_def fromIndex_def)
qed

text \<open>
  C7, amended. For an offset that keeps its grid and whose step moves every date forward:
  every generator that is constructed runs to its end, and the range it generates, as
  well as the range materialized from it by the uncached construction, has every element
  on the offset's grid, every element equal to its predecessor plus the offset, and its
  elements strictly increasing; the canonical range of the offset is built, and it and
  each of its slices, as the cache lookup returns them, have the same properties and
  carry the offset.
\<close>

theorem ranges_on_grid:
  assumes "keeps_grid env off" and "advances env off"
  shows "(resolve_offset env offs tr = Inr off \<and> XDateRange_init env fd td np offs tr = Inr x
           \<longrightarrow> (\<exists>xs. XDateRange_list env x = Some xs \<and> grid_range env off xs
                 \<and> materialize env fd td np offs tr
                     = Some (Inr (DateRange xs (Some offs) None))))
     \<and> (\<exists>canon. build_canonical env off = Some (Inr canon) \<and> offset canon = Some off
           \<and> grid_range env off (vals canon)
           \<and> (\<forall>a b. grid_range env off (vals (cache_slice canon a b))
                  \<and> offset (cache_slice canon a b) = Some off))
     \<and> (grid_range env off ys \<longleftrightarrow>
           (\<forall>d\<in>set ys. onOffset env off d)
           \<and> (\<forall>i. Suc i < length ys \<longrightarrow> ys ! Suc i = plus_offset env (ys ! i) off)
           \<and> sorted_wrt (<) ys)"
proof (intro conjI impI)
  show "\<exists>xs. XDateRange_list env x = Some xs \<and> grid_range env off xs
      \<and> materialize env fd td np offs tr = Some (Inr (DateRange xs (Some offs) None))"
    if "resolve_offset env offs tr = Inr off \<and> XDateRange_init env fd td np offs tr = Inr x"
    using that generated_grid_range[OF _ assms, of offs tr fd td np x] by simp
  from canonical_grid_range[OF assms] obtain canon where
    c: "build_canonical env off = Some (Inr canon)" "offset canon = Some off"
      "grid_range env off (vals canon)" by blast
  then have "\<forall>a b. grid_range env off (vals (cache_slice canon a b))
                  \<and> offset (cache_slice canon a b) = Some off"
    by (simp add: grid_range_slice) (simp add: cache_slice_def)
  with c show "\<exists>canon. build_canonical env off = Some (Inr canon) \<and> offset canon = Some off
           \<and> grid_range env off (vals canon)
           \<and> (\<forall>a b. grid_range env off (vals (cache_slice canon a b))
                  \<and> offset (cache_slice canon a b) = Some off)"
    by blast
  show "grid_range env off ys \<longleftrightarrow>
           (\<forall>d\<in>set ys. onOffset env off d)
           \<and> (\<forall>i. Suc i < length ys \<longrightarrow> ys ! Suc i = plus_offset env (ys ! i) off)
           \<and> sorted_wrt (<) ys"
    by (simp add: grid_range_def)
qed

lemma bday_apply_grid: "k \<noteq> 0 \<Longrightarrow> weekday (bday_apply k t) < 5"
proof (cases "0 < k")
  case True
  then obtain m where "nat k = Suc m" by (cases "nat k") auto
  then show ?thesis using True by (simp add: bday_apply_def bday_next_grid)
next
  case False
  assume "k \<noteq> 0"
  then have "k < 0" using False by simp
  then obtain m where "nat (- k) = Suc m" by (cases "nat (- k)") auto
  then show ?thesis using \<open>k < 0\<close> by (simp add: bday_apply_def bday_prev_grid)
qed

lemma weekday_normalize: "weekday (normalize_date t) = weekday t"
proof -
  have "(t - t mod 86400) div 86400 = t div 86400"
    by (metis div_mult_mod_eq add_diff_cancel_right' nonzero_mult_div_cancel_right
        zero_neq_numeral)
  then show ?thesis by (simp add: weekday_def normalize_date_def day_seconds_def)
qed

lemma keeps_grid_BDay: "keeps_grid std_datetools (BDay k)"
proof -
  have "weekday (bday_apply j d) < 5" if "weekday d < 5" for j d
    using that bday_apply_grid[of j d] by (cases "j = 0") (simp_all add: bday_apply_def)
  then show ?thesis
    by (simp add: keeps_grid_def std_datetools_def BDay_def is_bday_def bday_apply_grid
        weekday_normalize)
qed

text \<open>
  C7, as stated for every offset, fails: with a calendar-day offset of \<open>n = 0\<close> the
  generator from 2021-01-04 to 2021-01-05 yields 2021-01-04 and leaves the cursor where
  it is, so the next date yielded is 2021-01-04 again: the dates are not strictly
  increasing, and the run never ends.
\<close>

theorem zero_step_counterexample:
  "XDateRange_init std_datetools (Some (mk_datetime 2021 1 4)) (Some (mk_datetime 2021 1 5))
      None (Day 0) None = Inr stuck_generator
   \<and> start_cursor std_datetools stuck_generator = mk_datetime 2021 1 4
   \<and> XDateRange_next std_datetools stuck_generator (mk_datetime 2021 1 4)
       = Some (mk_datetime 2021 1 4, mk_datetime 2021 1 4)
   \<and> XDateRange_list std_datetools stuck_generator = None"
  by (simp add: stuck_never_ends)
    (simp add: stuck_generator_def start_cursor_def XDateRange_next_def init_simps date_simps
      offset_simps std_simps)

theorem ranges_on_grid_witness:
  "keeps_grid std_datetools (BDay 1) \<and> advances std_datetools (BDay 1)
   \<and> resolve_offset std_datetools (BDay 1) None = Inr (BDay 1)
   \<and> XDateRange_init std_datetools (Some (mk_datetime 2021 1 2)) (Some (mk_datetime 2021 1 10))
        None (BDay 1) None = Inr (week_generator None)
   \<and> grid_range std_datetools (BDay 1)
        [mk_datetime 2021 1 4, mk_datetime 2021 1 5, mk_datetime 2021 1 6,
         mk_datetime 2021 1 7, mk_datetime 2021 1 8]"
proof -
  have k: "keeps_grid std_datetools (BDay 1)" by (rule keeps_grid_BDay)
  have a: "advances std_datetools (BDay 1)" by (simp add: advances_BDay)
  have r: "resolve_offset std_datetools (BDay 1) None = Inr (BDay 1)"
    by (simp add: resolve_offset_def)
  have i: "XDateRange_init std_datetools (Some (mk_datetime 2021 1 2))
      (Some (mk_datetime 2021 1 10)) None (BDay 1) None = Inr (week_generator None)"
    by (simp add: week_generator_def init_simps date_simps offset_simps std_simps)
  have "\<exists>xs. XDateRange_list std_datetools (week_generator None) = Some xs
      \<and> grid_range std_datetools (BDay 1) xs
      \<and> materialize std_datetools (Some (mk_datetime 2021 1 2)) (Some (mk_datetime 2021 1 10))
           None (BDay 1) None = Some (Inr (DateRange xs (Some (BDay 1)) None))"
    using ranges_on_grid[OF k a, of "BDay 1" None "Some (mk_datetime 2021 1 2)"
        "Some (mk_datetime 2021 1 10)" None "week_generator None" "[]", THEN conjunct1] r i
    by blast
  then have "grid_range std_datetools (BDay 1)
        [mk_datetime 2021 1 4, mk_datetime 2021 1 5, mk_datetime 2021 1 6,
         mk_datetime 2021 1 7, mk_datetime 2021 1 8]"
    by (simp add: week_list)
  then show ?thesis using k a r i by blast
qed

end
